theory Spec2Isabelle
  imports Complex_Main
begin

section \<open>Tensor elements\<close>

text \<open>
  The validation script \<^verbatim>\<open>Backbone_Validation/main.py\<close> works on tensors of floating-point
  numbers. An element is modelled as a real number or one of the three special values
  that the arithmetic of the script can produce (a division by a zero label gives an
  infinity or a NaN, and line 414 writes NaN on purpose). Rounding of the mantissa is not
  modelled, and zero carries no sign.
\<close>

datatype fval = Fin real | PInf | NInf | NaN

datatype error = ZeroDivisionError | ValueError | RuntimeError | AttributeError

fun f_neg :: "fval \<Rightarrow> fval" where
  "f_neg (Fin a) = Fin (- a)"
| "f_neg PInf = NInf"
| "f_neg NInf = PInf"
| "f_neg NaN = NaN"

fun f_add :: "fval \<Rightarrow> fval \<Rightarrow> fval" where
  "f_add (Fin a) (Fin b) = Fin (a + b)"
| "f_add (Fin a) PInf = PInf"
| "f_add (Fin a) NInf = NInf"
| "f_add PInf (Fin b) = PInf"
| "f_add PInf PInf = PInf"
| "f_add NInf (Fin b) = NInf"
| "f_add NInf NInf = NInf"
| "f_add PInf NInf = NaN"
| "f_add NInf PInf = NaN"
| "f_add NaN y = NaN"
| "f_add x NaN = NaN"

definition f_sub :: "fval \<Rightarrow> fval \<Rightarrow> fval" where
  "f_sub x y = f_add x (f_neg y)"

definition signed_inf :: "real \<Rightarrow> fval" where
  "signed_inf s = (if 0 < s then PInf else if s < 0 then NInf else NaN)"

fun f_mul :: "fval \<Rightarrow> fval \<Rightarrow> fval" where
  "f_mul (Fin a) (Fin b) = Fin (a * b)"
| "f_mul (Fin a) PInf = signed_inf a"
| "f_mul (Fin a) NInf = signed_inf (- a)"
| "f_mul PInf (Fin b) = signed_inf b"
| "f_mul NInf (Fin b) = signed_inf (- b)"
| "f_mul PInf PInf = PInf"
| "f_mul PInf NInf = NInf"
| "f_mul NInf PInf = NInf"
| "f_mul NInf NInf = PInf"
| "f_mul NaN y = NaN"
| "f_mul x NaN = NaN"

fun f_div :: "fval \<Rightarrow> fval \<Rightarrow> fval" where
  "f_div (Fin a) (Fin b) = (if b = 0 then signed_inf a else Fin (a / b))"
| "f_div (Fin a) PInf = Fin 0"
| "f_div (Fin a) NInf = Fin 0"
| "f_div PInf (Fin b) = (if 0 \<le> b then PInf else NInf)"
| "f_div NInf (Fin b) = (if 0 \<le> b then NInf else PInf)"
| "f_div PInf PInf = NaN"
| "f_div PInf NInf = NaN"
| "f_div NInf PInf = NaN"
| "f_div NInf NInf = NaN"
| "f_div NaN y = NaN"
| "f_div x NaN = NaN"

fun f_abs :: "fval \<Rightarrow> fval" where
  "f_abs (Fin a) = Fin \<bar>a\<bar>"
| "f_abs PInf = PInf"
| "f_abs NInf = PInf"
| "f_abs NaN = NaN"

text \<open>\<^verbatim>\<open>torch.round\<close> rounds to the nearest integer, a tie to the even neighbour.\<close>

definition round_half_even :: "real \<Rightarrow> int" where
  "round_half_even x =
     (let f = \<lfloor>x\<rfloor>; d = x - of_int f
      in if d < 1 / 2 then f
         else if 1 / 2 < d then f + 1
         else if even f then f else f + 1)"

fun f_round :: "fval \<Rightarrow> fval" where
  "f_round (Fin a) = Fin (of_int (round_half_even a))"
| "f_round PInf = PInf"
| "f_round NInf = NInf"
| "f_round NaN = NaN"

text \<open>Comparisons: every comparison with NaN is false.\<close>

fun f_less :: "fval \<Rightarrow> fval \<Rightarrow> bool" where
  "f_less (Fin a) (Fin b) = (a < b)"
| "f_less (Fin a) PInf = True"
| "f_less NInf (Fin b) = True"
| "f_less NInf PInf = True"
| "f_less x y = False"

fun f_le :: "fval \<Rightarrow> fval \<Rightarrow> bool" where
  "f_le (Fin a) (Fin b) = (a \<le> b)"
| "f_le (Fin a) PInf = True"
| "f_le NInf (Fin b) = True"
| "f_le NInf PInf = True"
| "f_le PInf PInf = True"
| "f_le NInf NInf = True"
| "f_le x y = False"

fun f_eq :: "fval \<Rightarrow> fval \<Rightarrow> bool" where
  "f_eq NaN y = False"
| "f_eq x NaN = False"
| "f_eq x y = (x = y)"

section \<open>Signals\<close>

type_synonym signal = "fval list"

definition f_sum :: "fval list \<Rightarrow> fval" where
  "f_sum xs = foldl f_add (Fin 0) xs"

text \<open>\<^verbatim>\<open>torch.mean\<close> of a row; the mean of an empty row is 0/0.\<close>

definition mean :: "signal \<Rightarrow> fval" where
  "mean xs = f_div (f_sum xs) (Fin (real (length xs)))"

text \<open>Lines 377-378, 404-405 and 648-649: \<^verbatim>\<open>noisy_signals - mean\<close>, row by row.\<close>

definition center :: "signal \<Rightarrow> signal" where
  "center xs = (let m = mean xs in map (\<lambda>x. f_sub x m) xs)"

section \<open>The grid of windows\<close>

type_synonym index4 = "nat \<times> nat \<times> nat \<times> nat"

text \<open>
  \<^verbatim>\<open>np.unravel_index(i, shape)\<close> in the default row-major order: the last axis varies
  fastest. numpy raises ValueError for an index outside the array.
\<close>

fun unravel_index :: "nat \<Rightarrow> index4 \<Rightarrow> error + index4" where
  "unravel_index i (s0, s1, s2, s3) =
     (if i < s0 * s1 * s2 * s3
      then Inr (i div (s1 * s2 * s3), (i div (s2 * s3)) mod s1, (i div s3) mod s2, i mod s3)
      else Inl ValueError)"

fun in_grid :: "index4 \<Rightarrow> index4 \<Rightarrow> bool" where
  "in_grid (s0, s1, s2, s3) (a, b, c, d) = (a < s0 \<and> b < s1 \<and> c < s2 \<and> d < s3)"

fun ravel :: "index4 \<Rightarrow> index4 \<Rightarrow> nat" where
  "ravel (s0, s1, s2, s3) (a, b, c, d) = ((a * s1 + b) * s2 + c) * s3 + d"

fun grid_size :: "index4 \<Rightarrow> nat" where
  "grid_size (s0, s1, s2, s3) = s0 * s1 * s2 * s3"

section \<open>The loader, the models and the arguments\<close>

text \<open>
  The fields of \<^verbatim>\<open>args\<close> that the two functions read. \<^verbatim>\<open>main\<close> sets
  \<^verbatim>\<open>world_size\<close> to 1, or to the size of the process group when \<^verbatim>\<open>distributed\<close>.
\<close>

record args =
  world_size :: int
  local_rank :: int
  distributed :: bool

text \<open>
  A window as \<^verbatim>\<open>get_signal_window\<close> returns it: the noisy signal and the label tensor
  \<^verbatim>\<open>[count, duration, amplitude]\<close>. The times and the clean signal are only plotted.
\<close>

record window =
  noisy_signals :: signal
  labels :: "fval \<times> fval \<times> fval"

text \<open>
  The class \<^verbatim>\<open>Artificial_DataLoader\<close> is imported from \<^verbatim>\<open>Dataset_Management\<close>; the
  attributes and methods that \<^verbatim>\<open>main.py\<close> uses are the fields of this record.
\<close>

record loader =
  shape :: index4
  total_number_of_windows :: nat
  batch_size :: nat
  get_signal_window :: "index4 \<Rightarrow> window"
  get_batch :: "window list"

text \<open>
  The two networks come from \<^verbatim>\<open>ResNet1d\<close> and are used in evaluation mode, where a
  network maps every row of a batch by itself: \<open>model_1\<close> gives the count of a row,
  \<open>model_2\<close> the pair (duration, amplitude) of a row and its external input.
\<close>

record models =
  model_1 :: "signal \<Rightarrow> fval"
  model_2 :: "signal \<Rightarrow> fval \<Rightarrow> fval \<times> fval"

text \<open>The evaluations of the networks, in the order the script makes them, on whole batches.\<close>

datatype call = Counter "signal list" | Predictor "signal list" "fval list"

type_synonym tensor = "index4 \<Rightarrow> fval"

definition zeros :: tensor where
  "zeros = (\<lambda>idx. Fin 0)"

text \<open>Lines 387, 393 and 698-700: \<^verbatim>\<open>abs((label - prediction) / label) * 100\<close>.\<close>

definition pct_error :: "fval \<Rightarrow> fval \<Rightarrow> fval" where
  "pct_error l p = f_mul (f_abs (f_div (f_sub l p) l)) (Fin 100)"

section \<open>compute_error_stats\<close>

text \<open>
  The variables of lines 359-362. The field \<open>calls\<close> is not a variable of the script:
  it logs which network the script evaluates, on which batch and with which external
  input, so that properties about the evaluations can be stated.
\<close>

record stats =
  count_errors :: tensor
  duration_errors :: tensor
  amplitude_errors :: tensor
  improper_measures :: nat
  calls :: "call list"

definition init_stats :: stats where
  "init_stats = \<lparr>count_errors = zeros, duration_errors = zeros, amplitude_errors = zeros,
                  improper_measures = 0, calls = []\<rparr>"

text \<open>
  Lines 366-421, the body of the loop for one flat index \<open>i\<close>. The batch has the one row
  that \<^verbatim>\<open>unsqueeze(0)\<close> makes, so each \<^verbatim>\<open>torch.mean(..., dim=0)\<close> is the mean of one value.
\<close>

definition window_body :: "models \<Rightarrow> loader \<Rightarrow> nat \<Rightarrow> stats \<Rightarrow> error + stats" where
  "window_body M V i st =
     (case unravel_index i (shape V) of
        Inl e \<Rightarrow> Inl e
      | Inr idx \<Rightarrow>
         (case labels (get_signal_window V idx) of
            (l0, l1, l2) \<Rightarrow>
              let sig = center (noisy_signals (get_signal_window V idx));
                  num_of_pulses = model_1 M sig;
                  external = f_round num_of_pulses
              in if f_less (Fin 0) l0
                 then (case model_2 M sig external of
                         (o0, o1) \<Rightarrow>
                           Inr (st\<lparr>duration_errors := (duration_errors st)
                                      (idx := mean [pct_error l1 (f_mul o0 (Fin (1 / 10 ^ 3)))]),
                                    amplitude_errors := (amplitude_errors st)
                                      (idx := mean [pct_error l2 (f_mul o1 (Fin (1 / 10 ^ 10)))]),
                                    count_errors := (count_errors st)
                                      (idx := mean [pct_error l0 external]),
                                    calls := calls st @ [Counter [sig], Predictor [sig] [external]]\<rparr>))
                 else if f_less (Fin 0) external
                 then Inr (st\<lparr>count_errors := (count_errors st)(idx := NaN),
                                duration_errors := (duration_errors st)(idx := NaN),
                                amplitude_errors := (amplitude_errors st)(idx := NaN),
                                improper_measures := improper_measures st + 1,
                                calls := calls st @ [Counter [sig]]\<rparr>)
                 else Inr (st\<lparr>count_errors := (count_errors st)(idx := Fin 0),
                                duration_errors := (duration_errors st)(idx := Fin 0),
                                amplitude_errors := (amplitude_errors st)(idx := Fin 0),
                                calls := calls st @ [Counter [sig]]\<rparr>)))"

text \<open>
  Lines 364-365: the loop over \<^verbatim>\<open>range(total_number_of_windows)\<close> with its guard
  \<^verbatim>\<open>i % args.world_size == args.local_rank\<close>. Python raises ZeroDivisionError for a zero
  modulus; for any other modulus \<^verbatim>\<open>%\<close> on integers is \<open>mod\<close> on \<open>int\<close>.
\<close>

fun stats_loop :: "args \<Rightarrow> models \<Rightarrow> loader \<Rightarrow> nat list \<Rightarrow> stats \<Rightarrow> error + stats" where
  "stats_loop A M V [] st = Inr st"
| "stats_loop A M V (i # is) st =
     (if world_size A = 0 then Inl ZeroDivisionError
      else if int i mod world_size A = local_rank A
      then (case window_body M V i st of
              Inl e \<Rightarrow> Inl e
            | Inr st' \<Rightarrow> stats_loop A M V is st')
      else stats_loop A M V is st)"

text \<open>
  Lines 359-421: what one process accumulates before the reduction. The calls
  \<^verbatim>\<open>eval()\<close> and \<^verbatim>\<open>reset_avail_winds\<close> go to the networks and to the loader and
  leave what is modelled here as it is.
\<close>

definition local_stats :: "args \<Rightarrow> models \<Rightarrow> loader \<Rightarrow> error + stats" where
  "local_stats A M V = stats_loop A M V [0..<total_number_of_windows V] init_stats"

text \<open>
  Modelled from the spec: \<^verbatim>\<open>Utilities.reduce_tensor_sum_dest\<close> is not among the sources.
  The spec calls the reduction "an optional all-reduce sum across processes": given the
  tensors that the processes of the group contribute, every process receives their
  elementwise sum. The second argument is the destination that the caller passes.
\<close>

definition reduce_tensor_sum_dest :: "tensor list \<Rightarrow> nat \<Rightarrow> tensor" where
  "reduce_tensor_sum_dest ts dest = (\<lambda>idx. f_sum (map (\<lambda>t. t idx) ts))"

fun collect :: "(error + 'a) list \<Rightarrow> error + 'a list" where
  "collect [] = Inr []"
| "collect (Inl e # rs) = Inl e"
| "collect (Inr x # rs) = (case collect rs of Inl e \<Rightarrow> Inl e | Inr xs \<Rightarrow> Inr (x # xs))"

text \<open>
  The processes of the group run the same script, rank \<open>r\<close> with \<^verbatim>\<open>local_rank = r\<close>;
  these are their accumulated statistics, in the order of the ranks.
\<close>

definition group_stats :: "args \<Rightarrow> models \<Rightarrow> loader \<Rightarrow> error + stats list" where
  "group_stats A M V =
     collect (map (\<lambda>r. local_stats (A\<lparr>local_rank := int r\<rparr>) M V) [0..<nat (world_size A)])"

text \<open>Lines 427-436: the returned list, on the process described by \<open>A\<close>.\<close>

definition compute_error_stats ::
  "args \<Rightarrow> models \<Rightarrow> loader \<Rightarrow> error + (tensor \<times> tensor \<times> tensor \<times> nat)" where
  "compute_error_stats A M V =
     (case local_stats A M V of
        Inl e \<Rightarrow> Inl e
      | Inr st \<Rightarrow>
          if distributed A
          then (case group_stats A M V of
                  Inl e \<Rightarrow> Inl e
                | Inr sts \<Rightarrow>
                    Inr (reduce_tensor_sum_dest (map count_errors sts) 0,
                         reduce_tensor_sum_dest (map duration_errors sts) 0,
                         reduce_tensor_sum_dest (map amplitude_errors sts) 0,
                         improper_measures st))
          else Inr (count_errors st, duration_errors st, amplitude_errors st,
                    improper_measures st))"

section \<open>run_model\<close>

text \<open>
  Lines 651-659, the two evaluations on the batch. \<^verbatim>\<open>zero_pulse_indices\<close> are the rows
  whose rounded count equals 0.0; the outputs of those rows are overwritten with 0.0.
\<close>

record evaluation =
  zero_pulse_indices :: "nat list"
  external :: "fval list"
  outputs :: "(fval \<times> fval) list"
  model_calls :: "call list"

definition evaluate_batch :: "models \<Rightarrow> window list \<Rightarrow> evaluation" where
  "evaluate_batch M ws =
     (let sigs = map (\<lambda>w. center (noisy_signals w)) ws;
          num_of_pulses = map (model_1 M) sigs;
          zpi = filter (\<lambda>i. f_eq (f_round (num_of_pulses ! i)) (Fin 0))
                  [0..<length num_of_pulses];
          ext = map f_round num_of_pulses;
          outs = map (\<lambda>(s, e). model_2 M s e) (zip sigs ext)
      in \<lparr>zero_pulse_indices = zpi,
          external = ext,
          outputs = map (\<lambda>i. if i \<in> set zpi then (Fin 0, Fin 0) else outs ! i)
                      [0..<length outs],
          model_calls = [Counter sigs, Predictor sigs ext]\<rparr>)"

text \<open>
  Lines 685-689 start the three error sums as the Python float 0.0; adding a tensor
  element to one makes it a tensor. Only a tensor has \<^verbatim>\<open>.item()\<close>.
\<close>

datatype accum = PyFloat fval | Tens fval

fun acc_add :: "accum \<Rightarrow> fval \<Rightarrow> accum" where
  "acc_add (PyFloat a) x = Tens (f_add a x)"
| "acc_add (Tens a) x = Tens (f_add a x)"

fun item :: "accum \<Rightarrow> error + fval" where
  "item (PyFloat a) = Inl AttributeError"
| "item (Tens a) = Inr a"

text \<open>Python's division of a float by the float \<^verbatim>\<open>measures\<close>.\<close>

definition py_div :: "fval \<Rightarrow> nat \<Rightarrow> error + fval" where
  "py_div x n = (if n = 0 then Inl ZeroDivisionError else Inr (f_div x (Fin (real n))))"

record run_acc =
  count_error :: accum
  duration_error :: accum
  amplitude_error :: accum
  measures :: nat
  improper_measures_run :: nat

definition init_acc :: run_acc where
  "init_acc = \<lparr>count_error = PyFloat (Fin 0), duration_error = PyFloat (Fin 0),
                amplitude_error = PyFloat (Fin 0), measures = 0, improper_measures_run = 0\<rparr>"

text \<open>Lines 691-700, the body of the loop over the rows of the batch.\<close>

definition batch_body :: "window list \<Rightarrow> evaluation \<Rightarrow> nat \<Rightarrow> run_acc \<Rightarrow> run_acc" where
  "batch_body ws ev i acc =
     (case labels (ws ! i) of
        (l0, l1, l2) \<Rightarrow>
          if f_eq l0 (Fin 0)
          then (if i \<in> set (zero_pulse_indices ev)
                then acc\<lparr>measures := measures acc + 1\<rparr>
                else acc\<lparr>improper_measures_run := improper_measures_run acc + 1\<rparr>)
          else acc\<lparr>measures := measures acc + 1,
                   count_error := acc_add (count_error acc) (pct_error l0 (external ev ! i)),
                   duration_error := acc_add (duration_error acc)
                     (pct_error l1 (f_mul (fst (outputs ev ! i)) (Fin (1 / 10 ^ 3)))),
                   amplitude_error := acc_add (amplitude_error acc)
                     (pct_error l2 (f_mul (snd (outputs ev ! i)) (Fin (1 / 10 ^ 10))))\<rparr>)"

fun batch_loop :: "window list \<Rightarrow> evaluation \<Rightarrow> nat list \<Rightarrow> run_acc \<Rightarrow> run_acc" where
  "batch_loop ws ev [] acc = acc"
| "batch_loop ws ev (i # is) acc = batch_loop ws ev is (batch_body ws ev i acc)"

text \<open>
  The sums after line 700. \<^verbatim>\<open>torch.reshape(num_of_pulses, [batch_size, 1])\<close> raises
  RuntimeError unless the batch has \<^verbatim>\<open>batch_size\<close> rows. The plots are not modelled.
\<close>

definition run_model_sums :: "models \<Rightarrow> loader \<Rightarrow> error + run_acc" where
  "run_model_sums M V =
     (let ws = get_batch V
      in if length ws \<noteq> batch_size V then Inl RuntimeError
         else Inr (batch_loop ws (evaluate_batch M ws) [0..<batch_size V] init_acc))"

record report =
  duration_average :: fval
  amplitude_average :: fval
  count_average :: fval
  improper_reported :: nat

text \<open>
  Lines 703-707: the printed averages, evaluated in the order of the arguments of
  \<^verbatim>\<open>format\<close>, each one \<^verbatim>\<open>.item()\<close> first and then the division by \<^verbatim>\<open>measures\<close>.
\<close>

definition run_model :: "models \<Rightarrow> loader \<Rightarrow> error + report" where
  "run_model M V =
     (case run_model_sums M V of
        Inl e \<Rightarrow> Inl e
      | Inr acc \<Rightarrow>
         (case item (duration_error acc) of Inl e \<Rightarrow> Inl e | Inr d \<Rightarrow>
          case py_div d (measures acc) of Inl e \<Rightarrow> Inl e | Inr da \<Rightarrow>
          case item (amplitude_error acc) of Inl e \<Rightarrow> Inl e | Inr a \<Rightarrow>
          case py_div a (measures acc) of Inl e \<Rightarrow> Inl e | Inr aa \<Rightarrow>
          case item (count_error acc) of Inl e \<Rightarrow> Inl e | Inr c \<Rightarrow>
          case py_div c (measures acc) of Inl e \<Rightarrow> Inl e | Inr ca \<Rightarrow>
            Inr \<lparr>duration_average = da, amplitude_average = aa, count_average = ca,
                 improper_reported = improper_measures_run acc\<rparr>))"

section \<open>Notions used to state the properties\<close>

text \<open>The flat indices below \<open>n\<close> that pass the guard of line 365 on the process \<open>A\<close>.\<close>

definition shard :: "args \<Rightarrow> nat \<Rightarrow> nat list" where
  "shard A n = filter (\<lambda>i. int i mod world_size A = local_rank A) [0..<n]"

text \<open>The body of the loop run on each index of a list, in order, with no guard.\<close>

fun process_windows :: "models \<Rightarrow> loader \<Rightarrow> nat list \<Rightarrow> stats \<Rightarrow> error + stats" where
  "process_windows M V [] st = Inr st"
| "process_windows M V (i # is) st =
     (case window_body M V i st of
        Inl e \<Rightarrow> Inl e
      | Inr st' \<Rightarrow> process_windows M V is st')"

text \<open>The window at a cell, its centred signal and the rounded count of the counter.\<close>

definition signal_at :: "loader \<Rightarrow> index4 \<Rightarrow> signal" where
  "signal_at V idx = center (noisy_signals (get_signal_window V idx))"

definition count_at :: "models \<Rightarrow> loader \<Rightarrow> index4 \<Rightarrow> fval" where
  "count_at M V idx = f_round (model_1 M (signal_at V idx))"

definition label_at :: "loader \<Rightarrow> index4 \<Rightarrow> nat \<Rightarrow> fval" where
  "label_at V idx k =
     (case labels (get_signal_window V idx) of
        (l0, l1, l2) \<Rightarrow> if k = 0 then l0 else if k = 1 then l1 else l2)"

text \<open>
  The test of lines 371 and 413 on the window with flat index \<open>i\<close>: the label has no
  positive count and the rounded count of the counter is positive.
\<close>

definition improper_window :: "models \<Rightarrow> loader \<Rightarrow> nat \<Rightarrow> bool" where
  "improper_window M V i =
     (case unravel_index i (shape V) of
        Inl e \<Rightarrow> False
      | Inr idx \<Rightarrow> \<not> f_less (Fin 0) (label_at V idx 0) \<and> f_less (Fin 0) (count_at M V idx))"

section \<open>A small validation set\<close>

text \<open>
  A grid of shape (1, 1, 2, 2) with four windows, used to run the definitions on concrete
  input. Window 1 holds two pulses; the others hold none. The counter answers 0, 2.6, -1
  and 1 on the four centred signals, and the predictor answers (3000, 6 * 10^10).
\<close>

definition ex_window :: "nat \<Rightarrow> window" where
  "ex_window k =
     \<lparr>noisy_signals = [Fin 0, Fin (real (2 * k))],
      labels = (if k = 1 then (Fin 2, Fin 4, Fin 5) else (Fin 0, Fin 0, Fin 0))\<rparr>"

definition ex_loader :: loader where
  "ex_loader =
     \<lparr>shape = (1, 1, 2, 2),
      total_number_of_windows = 4,
      batch_size = 2,
      get_signal_window = (\<lambda>(a, b, c, d). ex_window (2 * c + d)),
      get_batch = [ex_window 2, ex_window 1]\<rparr>"

definition ex_models :: models where
  "ex_models =
     \<lparr>model_1 = (\<lambda>s. if s = [Fin (- 1), Fin 1] then Fin (13 / 5)
                      else if s = [Fin (- 2), Fin 2] then Fin (- 1)
                      else if s = [Fin (- 3), Fin 3] then Fin 1
                      else Fin 0),
      model_2 = (\<lambda>s e. (Fin 3000, Fin (6 * 10 ^ 10)))\<rparr>"

definition ex_args :: args where
  "ex_args = \<lparr>world_size = 2, local_rank = 1, distributed = True\<rparr>"

section \<open>Index arithmetic\<close>

lemma mean_single: "mean [v] = v"
  by (cases v) (simp_all add: mean_def f_sum_def)

lemma unravel_index_ravel:
  assumes "unravel_index i s = Inr idx"
  shows "ravel s idx = i \<and> in_grid s idx \<and> i < grid_size s"
proof -
  obtain s0 s1 s2 s3 where s: "s = (s0, s1, s2, s3)" by (cases s) auto
  from assms s have lt: "i < s0 * s1 * s2 * s3"
    and idx: "idx = (i div (s1 * s2 * s3), (i div (s2 * s3)) mod s1, (i div s3) mod s2, i mod s3)"
    by (auto split: if_splits)
  from lt have "s0 * s1 * s2 * s3 \<noteq> 0" by (cases "s0 * s1 * s2 * s3") simp_all
  then have p3: "0 < s3" and p2: "0 < s2" and p1: "0 < s1" by simp_all
  have q2: "i div (s2 * s3) = (i div s3) div s2"
    by (metis div_mult2_eq mult.commute)
  have q1: "i div (s1 * s2 * s3) = ((i div s3) div s2) div s1"
    by (metis div_mult2_eq mult.commute mult.assoc)
  have a: "i div (s1 * s2 * s3) < s0"
    using lt by (metis less_mult_imp_div_less mult.assoc)
  have r: "((i div (s1 * s2 * s3) * s1 + (i div (s2 * s3)) mod s1) * s2 + (i div s3) mod s2) * s3 + i mod s3 = i"
    unfolding q1 q2 by simp
  show ?thesis using s idx lt a p1 p2 p3 r by simp
qed

lemma ravel_unravel_index:
  assumes "in_grid s idx"
  shows "unravel_index (ravel s idx) s = Inr idx"
proof -
  obtain s0 s1 s2 s3 where s: "s = (s0, s1, s2, s3)" by (cases s) auto
  obtain a b c d where i: "idx = (a, b, c, d)" by (cases idx) auto
  from assms s i have b: "a < s0" "b < s1" "c < s2" "d < s3" by auto
  let ?i = "((a * s1 + b) * s2 + c) * s3 + d"
  have d3: "?i div s3 = (a * s1 + b) * s2 + c" using b by simp
  have m3: "?i mod s3 = d" using b by simp
  have "?i div (s2 * s3) = (?i div s3) div s2"
    by (metis div_mult2_eq mult.commute)
  then have d2: "?i div (s2 * s3) = a * s1 + b"
    using b d3 by simp
  have d1: "?i div (s1 * s2 * s3) = a"
  proof -
    have "?i div (s1 * s2 * s3) = (?i div (s2 * s3)) div s1"
      by (metis div_mult2_eq mult.commute mult.assoc)
    then show ?thesis using d2 b by simp
  qed
  have "(a * s1 + b) * s2 + c < (a * s1 + b + 1) * s2" using b by simp
  also have "\<dots> \<le> (s0 * s1) * s2"
  proof -
    have "a * s1 + b + 1 \<le> (a + 1) * s1" using b by simp
    also have "\<dots> \<le> s0 * s1" using b by (intro mult_le_mono1) simp
    finally show ?thesis by (intro mult_le_mono1)
  qed
  finally have "(a * s1 + b) * s2 + c < s0 * s1 * s2" .
  then have "?i < ((a * s1 + b) * s2 + c + 1) * s3" "((a * s1 + b) * s2 + c + 1) * s3 \<le> (s0 * s1 * s2) * s3"
    using b by (simp, intro mult_le_mono1, simp)
  then have lt: "?i < s0 * s1 * s2 * s3" by linarith
  show ?thesis
    unfolding s i ravel.simps unravel_index.simps using lt d1 d2 d3 m3 b by simp
qed

lemma unravel_index_inject:
  assumes "unravel_index i s = Inr idx" "unravel_index j s = Inr idx"
  shows "i = j"
  using unravel_index_ravel [OF assms(1)] unravel_index_ravel [OF assms(2)] by simp

lemma unravel_index_ok:
  assumes "i < grid_size s"
  shows "\<exists>idx. unravel_index i s = Inr idx"
  using assms by (cases s) auto

section \<open>One window\<close>

lemma window_body_ok:
  "unravel_index i (shape V) = Inr idx \<Longrightarrow> \<exists>st'. window_body M V i st = Inr st'"
  by (simp add: window_body_def Let_def split: prod.splits)

lemma window_body_unravel:
  "window_body M V i st = Inr st' \<Longrightarrow> \<exists>idx. unravel_index i (shape V) = Inr idx"
  by (cases "unravel_index i (shape V)") (auto simp: window_body_def)

lemma window_body_frame:
  assumes "window_body M V i st = Inr st'" "unravel_index i (shape V) = Inr idx" "jdx \<noteq> idx"
  shows "count_errors st' jdx = count_errors st jdx"
    and "duration_errors st' jdx = duration_errors st jdx"
    and "amplitude_errors st' jdx = amplitude_errors st jdx"
  using assms by (auto simp: window_body_def Let_def split: prod.splits if_splits)

lemma window_body_positive:
  assumes "window_body M V i st = Inr st'" "unravel_index i (shape V) = Inr idx"
    "f_less (Fin 0) (label_at V idx 0)"
  shows "count_errors st' idx = pct_error (label_at V idx 0) (count_at M V idx)"
    and "duration_errors st' idx = pct_error (label_at V idx 1)
           (f_mul (fst (model_2 M (signal_at V idx) (count_at M V idx))) (Fin (1 / 10 ^ 3)))"
    and "amplitude_errors st' idx = pct_error (label_at V idx 2)
           (f_mul (snd (model_2 M (signal_at V idx) (count_at M V idx))) (Fin (1 / 10 ^ 10)))"
    and "improper_measures st' = improper_measures st"
  using assms
  by (auto simp: window_body_def Let_def label_at_def count_at_def signal_at_def mean_single
           split: prod.splits if_splits)

lemma window_body_nonpositive:
  assumes "window_body M V i st = Inr st'" "unravel_index i (shape V) = Inr idx"
    "\<not> f_less (Fin 0) (label_at V idx 0)"
  shows "count_errors st' idx = (if f_less (Fin 0) (count_at M V idx) then NaN else Fin 0)"
    and "duration_errors st' idx = (if f_less (Fin 0) (count_at M V idx) then NaN else Fin 0)"
    and "amplitude_errors st' idx = (if f_less (Fin 0) (count_at M V idx) then NaN else Fin 0)"
    and "improper_measures st' = improper_measures st + (if f_less (Fin 0) (count_at M V idx) then 1 else 0)"
  using assms
  by (auto simp: window_body_def Let_def label_at_def count_at_def signal_at_def
           split: prod.splits if_splits)

lemma window_body_improper:
  assumes "window_body M V i st = Inr st'"
  shows "improper_measures st' = improper_measures st + (if improper_window M V i then 1 else 0)"
proof -
  from window_body_unravel [OF assms] obtain idx where u: "unravel_index i (shape V) = Inr idx" ..
  show ?thesis
  proof (cases "f_less (Fin 0) (label_at V idx 0)")
    case True
    then show ?thesis using window_body_positive(4) [OF assms u True] u
      by (simp add: improper_window_def)
  next
    case False
    then show ?thesis using window_body_nonpositive(4) [OF assms u False] u
      by (simp add: improper_window_def)
  qed
qed

lemma window_body_cells_indep:
  assumes "window_body M V i s1 = Inr t1" "window_body M V i s2 = Inr t2"
    "unravel_index i (shape V) = Inr idx"
  shows "count_errors t1 idx = count_errors t2 idx \<and>
         duration_errors t1 idx = duration_errors t2 idx \<and>
         amplitude_errors t1 idx = amplitude_errors t2 idx"
proof (cases "f_less (Fin 0) (label_at V idx 0)")
  case True
  show ?thesis
    using window_body_positive [OF assms(1) assms(3) True]
      window_body_positive [OF assms(2) assms(3) True] by simp
next
  case False
  show ?thesis
    using window_body_nonpositive [OF assms(1) assms(3) False]
      window_body_nonpositive [OF assms(2) assms(3) False] by simp
qed

lemma window_body_calls:
  assumes "unravel_index i (shape V) = Inr idx"
  shows "\<exists>st'. window_body M V i st = Inr st' \<and>
           calls st' = calls st @
             (if f_less (Fin 0) (label_at V idx 0)
              then [Counter [signal_at V idx],
                    Predictor [signal_at V idx] [f_round (model_1 M (signal_at V idx))]]
              else [Counter [signal_at V idx]])"
  using assms
  by (auto simp: window_body_def Let_def label_at_def signal_at_def split: prod.splits)

lemma f_round_positive: "f_less (Fin 0) (f_round x) = f_le (Fin 1) (f_round x)"
proof (cases x)
  case (Fin a)
  have "(0 < round_half_even a) = (1 \<le> round_half_even a)" by linarith
  then have "(0 < real_of_int (round_half_even a)) = (1 \<le> real_of_int (round_half_even a))"
    by (simp only: of_int_0_less_iff of_int_1_le_iff)
  then show ?thesis using Fin by simp
qed simp_all

section \<open>The loop over the windows\<close>

lemma stats_loop_process:
  assumes "world_size A \<noteq> 0"
  shows "stats_loop A M V js st =
         process_windows M V (filter (\<lambda>i. int i mod world_size A = local_rank A) js) st"
  using assms
proof (induction js arbitrary: st)
  case Nil
  then show ?case by simp
next
  case (Cons j js)
  then show ?case by (simp split: sum.splits)
qed

lemma process_windows_ok:
  assumes "\<forall>i \<in> set js. i < grid_size (shape V)"
  shows "\<exists>st'. process_windows M V js st = Inr st'"
  using assms
proof (induction js arbitrary: st)
  case Nil
  then show ?case by simp
next
  case (Cons j js)
  from Cons.prems have "j < grid_size (shape V)" by simp
  then obtain idx where "unravel_index j (shape V) = Inr idx"
    using unravel_index_ok by blast
  then obtain s1 where "window_body M V j st = Inr s1"
    using window_body_ok by blast
  then show ?case using Cons by simp
qed

lemma process_windows_untouched:
  assumes "process_windows M V js st = Inr st'"
    and "\<forall>j \<in> set js. unravel_index j (shape V) \<noteq> Inr idx"
  shows "count_errors st' idx = count_errors st idx \<and>
         duration_errors st' idx = duration_errors st idx \<and>
         amplitude_errors st' idx = amplitude_errors st idx"
  using assms
proof (induction js arbitrary: st)
  case Nil
  then show ?case by simp
next
  case (Cons j js)
  from Cons.prems(1) obtain s1 where b: "window_body M V j st = Inr s1"
    and r: "process_windows M V js s1 = Inr st'"
    by (auto split: sum.splits)
  from window_body_unravel [OF b] obtain jdx where u: "unravel_index j (shape V) = Inr jdx" ..
  with Cons.prems(2) have ne: "idx \<noteq> jdx" by auto
  from Cons.IH [OF r] Cons.prems(2)
  have "count_errors st' idx = count_errors s1 idx \<and>
        duration_errors st' idx = duration_errors s1 idx \<and>
        amplitude_errors st' idx = amplitude_errors s1 idx" by simp
  then show ?case using window_body_frame [OF b u ne] by simp
qed

lemma process_windows_cell:
  assumes "process_windows M V js st = Inr st'" "distinct js" "i \<in> set js"
    and "unravel_index i (shape V) = Inr idx" "window_body M V i s = Inr t"
  shows "count_errors st' idx = count_errors t idx \<and>
         duration_errors st' idx = duration_errors t idx \<and>
         amplitude_errors st' idx = amplitude_errors t idx"
  using assms(1,2,3)
proof (induction js arbitrary: st)
  case Nil
  then show ?case by simp
next
  case (Cons j js)
  from Cons.prems(1) obtain s1 where b: "window_body M V j st = Inr s1"
    and r: "process_windows M V js s1 = Inr st'"
    by (auto split: sum.splits)
  show ?case
  proof (cases "i = j")
    case True
    have "\<forall>k \<in> set js. unravel_index k (shape V) \<noteq> Inr idx"
    proof
      fix k assume k: "k \<in> set js"
      with Cons.prems(2) True have "k \<noteq> i" by auto
      then show "unravel_index k (shape V) \<noteq> Inr idx"
        using unravel_index_inject [OF _ assms(4)] by blast
    qed
    from process_windows_untouched [OF r this]
    have "count_errors st' idx = count_errors s1 idx \<and>
          duration_errors st' idx = duration_errors s1 idx \<and>
          amplitude_errors st' idx = amplitude_errors s1 idx" .
    moreover from b True have "window_body M V i st = Inr s1" by simp
    from window_body_cells_indep [OF this assms(5) assms(4)]
    have "count_errors s1 idx = count_errors t idx \<and>
          duration_errors s1 idx = duration_errors t idx \<and>
          amplitude_errors s1 idx = amplitude_errors t idx" .
    ultimately show ?thesis by simp
  next
    case False
    with Cons.prems have "i \<in> set js" "distinct js" by auto
    from Cons.IH [OF r this(2) this(1)] show ?thesis .
  qed
qed

lemma process_windows_improper:
  assumes "process_windows M V js st = Inr st'"
  shows "improper_measures st' = improper_measures st + length (filter (improper_window M V) js)"
  using assms
proof (induction js arbitrary: st)
  case Nil
  then show ?case by simp
next
  case (Cons j js)
  from Cons.prems(1) obtain s1 where b: "window_body M V j st = Inr s1"
    and r: "process_windows M V js s1 = Inr st'"
    by (auto split: sum.splits)
  from Cons.IH [OF r] window_body_improper [OF b] show ?case by simp
qed

lemma local_stats_process:
  "world_size A \<noteq> 0 \<Longrightarrow>
   local_stats A M V = process_windows M V (shard A (total_number_of_windows V)) init_stats"
  by (simp add: local_stats_def shard_def stats_loop_process)

lemma shard_set: "set (shard A n) = {i. i < n \<and> int i mod world_size A = local_rank A}"
  by (auto simp: shard_def)

lemma shard_distinct: "distinct (shard A n)"
  by (simp add: shard_def)

lemma shard_local_rank:
  "shard (A\<lparr>local_rank := r\<rparr>) n = filter (\<lambda>i. int i mod world_size A = r) [0..<n]"
  by (simp add: shard_def)

lemma local_stats_ok:
  assumes "world_size A \<noteq> 0" "total_number_of_windows V \<le> grid_size (shape V)"
  shows "\<exists>st. local_stats A M V = Inr st"
proof -
  have "\<forall>i \<in> set (shard A (total_number_of_windows V)). i < grid_size (shape V)"
    using assms(2) by (auto simp: shard_set)
  from process_windows_ok [OF this] show ?thesis
    using assms(1) by (simp add: local_stats_process)
qed

lemma local_stats_cell:
  assumes "world_size A \<noteq> 0" "local_stats A M V = Inr st"
    and "i < total_number_of_windows V" "int i mod world_size A = local_rank A"
    and "unravel_index i (shape V) = Inr idx" "window_body M V i s = Inr t"
  shows "count_errors st idx = count_errors t idx \<and>
         duration_errors st idx = duration_errors t idx \<and>
         amplitude_errors st idx = amplitude_errors t idx"
proof -
  from assms(1,2) have p: "process_windows M V (shard A (total_number_of_windows V)) init_stats = Inr st"
    by (simp add: local_stats_process)
  from assms(3,4) have m: "i \<in> set (shard A (total_number_of_windows V))"
    by (simp add: shard_set)
  from process_windows_cell [OF p shard_distinct m assms(5) assms(6)] show ?thesis .
qed

lemma local_stats_improper:
  assumes "world_size A \<noteq> 0" "local_stats A M V = Inr st"
  shows "improper_measures st =
         length (filter (improper_window M V) (shard A (total_number_of_windows V)))"
proof -
  from assms
  have "process_windows M V (shard A (total_number_of_windows V)) init_stats = Inr st"
    by (simp add: local_stats_process)
  from process_windows_improper [OF this] show ?thesis by (simp add: init_stats_def)
qed

lemma two_filters_length:
  assumes "\<forall>x \<in> set xs. \<not> (G1 x \<and> G2 x)"
  shows "length (filter P (filter G1 xs)) + length (filter P (filter G2 xs))
         \<le> length (filter P xs)"
  using assms by (induction xs) auto

lemma filter_eq_single:
  assumes "distinct xs"
  shows "filter (\<lambda>x. x = a) xs = (if a \<in> set xs then [a] else [])"
  using assms
proof (induction xs)
  case Nil
  then show ?case by simp
next
  case (Cons x xs)
  then show ?case by auto
qed

lemma shard_writes_of_cell:
  assumes "in_grid (shape V) idx"
  shows "filter (\<lambda>i. unravel_index i (shape V) = Inr idx) (shard A n) =
         (if ravel (shape V) idx \<in> set (shard A n) then [ravel (shape V) idx] else [])"
proof -
  have u: "unravel_index (ravel (shape V) idx) (shape V) = Inr idx"
    by (rule ravel_unravel_index [OF assms])
  have "\<And>i. (unravel_index i (shape V) = Inr idx) = (i = ravel (shape V) idx)"
    using u unravel_index_inject by blast
  then have "filter (\<lambda>i. unravel_index i (shape V) = Inr idx) (shard A n) =
             filter (\<lambda>i. i = ravel (shape V) idx) (shard A n)"
    by simp
  also have "\<dots> = (if ravel (shape V) idx \<in> set (shard A n) then [ravel (shape V) idx] else [])"
    by (rule filter_eq_single [OF shard_distinct])
  finally show ?thesis .
qed

lemma stats_loop_ok:
  assumes "world_size A \<noteq> 0" "n \<le> grid_size (shape V)"
  shows "\<exists>st. stats_loop A M V [0..<n] s0 = Inr st \<and>
              process_windows M V (shard A n) s0 = Inr st"
proof -
  have "\<forall>i \<in> set (shard A n). i < grid_size (shape V)"
    using assms(2) by (auto simp: shard_set)
  from process_windows_ok [OF this] obtain st where "process_windows M V (shard A n) s0 = Inr st"
    by blast
  then show ?thesis using assms(1) by (simp add: stats_loop_process shard_def)
qed

lemma concat_single_rank:
  "concat (map (\<lambda>r. if r = r0 then [a] else []) [0..<n]) = (if r0 < n then [a] else [])"
  by (induction n) auto

lemma group_writes_of_cell:
  assumes "0 < world_size A" "in_grid (shape V) idx" "ravel (shape V) idx < n"
  shows "concat (map (\<lambda>r. filter (\<lambda>i. unravel_index i (shape V) = Inr idx)
                            (shard (A\<lparr>local_rank := int r\<rparr>) n))
                   [0..<nat (world_size A)]) = [ravel (shape V) idx]"
proof -
  let ?a = "ravel (shape V) idx"
  let ?r0 = "nat (int ?a mod world_size A)"
  have r0: "?r0 < nat (world_size A)" using assms(1) by simp
  have "\<And>r. filter (\<lambda>i. unravel_index i (shape V) = Inr idx) (shard (A\<lparr>local_rank := int r\<rparr>) n)
           = (if r = ?r0 then [?a] else [])"
  proof -
    fix r
    have "(int ?a mod world_size A = int r) = (r = ?r0)"
      using assms(1) by auto
    then show "filter (\<lambda>i. unravel_index i (shape V) = Inr idx) (shard (A\<lparr>local_rank := int r\<rparr>) n)
           = (if r = ?r0 then [?a] else [])"
      using assms(3) by (simp add: shard_writes_of_cell [OF assms(2)] shard_set)
  qed
  then have "concat (map (\<lambda>r. filter (\<lambda>i. unravel_index i (shape V) = Inr idx)
                            (shard (A\<lparr>local_rank := int r\<rparr>) n))
                   [0..<nat (world_size A)])
        = concat (map (\<lambda>r. if r = ?r0 then [?a] else []) [0..<nat (world_size A)])"
    by simp
  also have "\<dots> = [?a]" using r0 by (simp only: concat_single_rank if_True)
  finally show ?thesis .
qed

section \<open>The process group\<close>

lemma collect_ok:
  assumes "\<forall>x \<in> set rs. \<exists>y. x = Inr y"
  shows "\<exists>ys. collect rs = Inr ys \<and> length ys = length rs \<and>
              (\<forall>k < length rs. rs ! k = Inr (ys ! k))"
  using assms
proof (induction rs)
  case Nil
  then show ?case by simp
next
  case (Cons x rs)
  from Cons.prems obtain y where y: "x = Inr y" by auto
  from Cons obtain ys where ys: "collect rs = Inr ys" "length ys = length rs"
    "\<forall>k < length rs. rs ! k = Inr (ys ! k)" by auto
  have "\<forall>k < length (x # rs). (x # rs) ! k = Inr ((y # ys) ! k)"
  proof (intro allI impI)
    fix k assume "k < length (x # rs)"
    then show "(x # rs) ! k = Inr ((y # ys) ! k)"
      using y ys(3) by (cases k) auto
  qed
  then show ?case using y ys by simp
qed

lemma group_stats_ok:
  assumes "0 < world_size A" "total_number_of_windows V \<le> grid_size (shape V)"
  shows "\<exists>sts. group_stats A M V = Inr sts \<and> length sts = nat (world_size A) \<and>
           (\<forall>r < nat (world_size A). local_stats (A\<lparr>local_rank := int r\<rparr>) M V = Inr (sts ! r))"
proof -
  let ?rs = "map (\<lambda>r. local_stats (A\<lparr>local_rank := int r\<rparr>) M V) [0..<nat (world_size A)]"
  have "\<forall>x \<in> set ?rs. \<exists>y. x = Inr y"
  proof
    fix x assume "x \<in> set ?rs"
    then obtain r where x: "x = local_stats (A\<lparr>local_rank := int r\<rparr>) M V" by auto
    have "world_size (A\<lparr>local_rank := int r\<rparr>) \<noteq> 0" using assms(1) by simp
    from local_stats_ok [OF this assms(2)] x show "\<exists>y. x = Inr y" by simp
  qed
  from collect_ok [OF this] obtain ys where ys: "collect ?rs = Inr ys"
    "length ys = length ?rs" "\<forall>k < length ?rs. ?rs ! k = Inr (ys ! k)" by blast
  have "\<forall>r < nat (world_size A). local_stats (A\<lparr>local_rank := int r\<rparr>) M V = Inr (ys ! r)"
    using ys(3) by simp
  then show ?thesis using ys(1,2) by (simp add: group_stats_def)
qed

lemma compute_error_stats_value:
  assumes "local_stats A M V = Inr st" "group_stats A M V = Inr sts"
  shows "compute_error_stats A M V =
     Inr (if distributed A
          then ((\<lambda>idx. f_sum (map (\<lambda>s. count_errors s idx) sts)),
                (\<lambda>idx. f_sum (map (\<lambda>s. duration_errors s idx) sts)),
                (\<lambda>idx. f_sum (map (\<lambda>s. amplitude_errors s idx) sts)),
                improper_measures st)
          else (count_errors st, duration_errors st, amplitude_errors st,
                improper_measures st))"
  using assms by (simp add: compute_error_stats_def reduce_tensor_sum_dest_def comp_def)

section \<open>The batch of run_model\<close>

lemma evaluate_batch_calls:
  "model_calls (evaluate_batch M ws) =
     [Counter (map (\<lambda>w. center (noisy_signals w)) ws),
      Predictor (map (\<lambda>w. center (noisy_signals w)) ws)
        (map (\<lambda>w. f_round (model_1 M (center (noisy_signals w)))) ws)]"
  by (simp add: evaluate_batch_def Let_def comp_def)

lemma evaluate_batch_zero_pulse:
  assumes "i < length ws"
  shows "(i \<in> set (zero_pulse_indices (evaluate_batch M ws))) =
         f_eq (f_round (model_1 M (center (noisy_signals (ws ! i))))) (Fin 0)"
  using assms by (simp add: evaluate_batch_def Let_def)

lemma batch_body_measures_mono: "measures acc \<le> measures (batch_body ws ev i acc)"
  by (simp add: batch_body_def split: prod.splits)

lemma batch_loop_measures_mono: "measures acc \<le> measures (batch_loop ws ev js acc)"
proof (induction js arbitrary: acc)
  case Nil
  then show ?case by simp
next
  case (Cons j js)
  have "measures acc \<le> measures (batch_body ws ev j acc)" by (rule batch_body_measures_mono)
  also have "\<dots> \<le> measures (batch_loop ws ev js (batch_body ws ev j acc))" by (rule Cons.IH)
  finally show ?case by simp
qed

lemma batch_body_measures_proper:
  assumes "\<not> f_eq (fst (labels (ws ! i))) (Fin 0) \<or> i \<in> set (zero_pulse_indices ev)"
  shows "0 < measures (batch_body ws ev i acc)"
  using assms by (auto simp: batch_body_def split: prod.splits)

lemma batch_loop_measures_proper:
  assumes "i \<in> set js"
    and "\<not> f_eq (fst (labels (ws ! i))) (Fin 0) \<or> i \<in> set (zero_pulse_indices ev)"
  shows "0 < measures (batch_loop ws ev js acc)"
  using assms(1)
proof (induction js arbitrary: acc)
  case Nil
  then show ?case by simp
next
  case (Cons j js)
  show ?case
  proof (cases "i = j")
    case True
    have "0 < measures (batch_body ws ev j acc)"
      using batch_body_measures_proper [OF assms(2)] True by simp
    also have "\<dots> \<le> measures (batch_loop ws ev js (batch_body ws ev j acc))"
      by (rule batch_loop_measures_mono)
    finally show ?thesis by simp
  next
    case False
    with Cons.prems have "i \<in> set js" by simp
    from Cons.IH [OF this] show ?thesis by simp
  qed
qed

lemma f_less_not_eq: "f_less (Fin 0) x \<Longrightarrow> \<not> f_eq x (Fin 0)"
  by (cases x) auto

lemma run_model_value:
  assumes "run_model_sums M V = Inr acc" "0 < measures acc"
  shows "run_model M V =
     (case (item (duration_error acc), item (amplitude_error acc), item (count_error acc)) of
        (Inr d, Inr a, Inr c) \<Rightarrow>
          Inr \<lparr>duration_average = f_div d (Fin (real (measures acc))),
               amplitude_average = f_div a (Fin (real (measures acc))),
               count_average = f_div c (Fin (real (measures acc))),
               improper_reported = improper_measures_run acc\<rparr>
      | (Inr d, Inr a, Inl e) \<Rightarrow> Inl e
      | (Inr d, Inl e, _) \<Rightarrow> Inl e
      | (Inl e, _, _) \<Rightarrow> Inl e)"
  using assms by (simp add: run_model_def py_div_def split: sum.splits)

lemma item_error: "item x = Inl e \<Longrightarrow> e = AttributeError"
  by (cases x) auto

section \<open>The small validation set, evaluated\<close>

lemmas ex_simps = ex_loader_def ex_models_def ex_window_def ex_args_def
  label_at_def signal_at_def count_at_def center_def mean_def f_sum_def f_sub_def
  round_half_even_def pct_error_def

lemma upt4: "[0..<4] = [0, 1, 2, 3]"
  by (simp add: upt_rec)

lemma upt2: "[0..<2] = [0, Suc 0]"
  by (simp add: upt_rec)

lemma ex_total: "total_number_of_windows ex_loader = 4"
  by (simp add: ex_loader_def)

lemma ex_unravel:
  "unravel_index 0 (shape ex_loader) = Inr (0, 0, 0, 0)"
  "unravel_index (Suc 0) (shape ex_loader) = Inr (0, 0, 0, Suc 0)"
  "unravel_index 2 (shape ex_loader) = Inr (0, 0, Suc 0, 0)"
  "unravel_index 3 (shape ex_loader) = Inr (0, 0, Suc 0, Suc 0)"
  by (simp_all add: ex_loader_def)

lemma ex_label_at:
  "label_at ex_loader (0, 0, 0, 0) 0 = Fin 0"
  "label_at ex_loader (0, 0, 0, Suc 0) 0 = Fin 2"
  "label_at ex_loader (0, 0, Suc 0, 0) 0 = Fin 0"
  "label_at ex_loader (0, 0, Suc 0, Suc 0) 0 = Fin 0"
  by (simp_all add: label_at_def ex_loader_def ex_window_def)

lemma ex_signal_at:
  "signal_at ex_loader (0, 0, 0, 0) = [Fin 0, Fin 0]"
  "signal_at ex_loader (0, 0, 0, Suc 0) = [Fin (- 1), Fin 1]"
  "signal_at ex_loader (0, 0, Suc 0, 0) = [Fin (- 2), Fin 2]"
  "signal_at ex_loader (0, 0, Suc 0, Suc 0) = [Fin (- 3), Fin 3]"
  by (simp_all add: signal_at_def ex_loader_def ex_window_def center_def mean_def f_sum_def
        f_sub_def Let_def)

lemma ex_count_at:
  "count_at ex_models ex_loader (0, 0, 0, 0) = Fin 0"
  "count_at ex_models ex_loader (0, 0, 0, Suc 0) = Fin 3"
  "count_at ex_models ex_loader (0, 0, Suc 0, 0) = Fin (- 1)"
  "count_at ex_models ex_loader (0, 0, Suc 0, Suc 0) = Fin 1"
  by (simp_all add: count_at_def ex_signal_at ex_models_def round_half_even_def)

lemma ex_improper_window:
  "\<not> improper_window ex_models ex_loader 0"
  "\<not> improper_window ex_models ex_loader (Suc 0)"
  "\<not> improper_window ex_models ex_loader 2"
  "improper_window ex_models ex_loader 3"
  by (simp_all add: improper_window_def ex_unravel ex_label_at ex_count_at)

lemma ex_improper_windows:
  "filter (improper_window ex_models ex_loader) [0..<total_number_of_windows ex_loader] = [3]"
  by (simp add: ex_total upt4 ex_improper_window)

lemma ex_shards:
  "shard (ex_args\<lparr>local_rank := 0\<rparr>) 4 = [0, 2]"
  "shard (ex_args\<lparr>local_rank := 1\<rparr>) 4 = [1, 3]"
  "shard ex_args 4 = [1, 3]"
  by (simp_all add: shard_def ex_args_def upt4)

lemma ex_window_body_3:
  "window_body ex_models ex_loader 3 init_stats =
     Inr (init_stats\<lparr>count_errors := zeros((0, 0, 1, 1) := NaN),
                     duration_errors := zeros((0, 0, 1, 1) := NaN),
                     amplitude_errors := zeros((0, 0, 1, 1) := NaN),
                     improper_measures := 1,
                     calls := [Counter [[Fin (- 3), Fin 3]]]\<rparr>)"
  by (simp add: window_body_def ex_loader_def ex_models_def ex_window_def init_stats_def
        center_def mean_def f_sum_def f_sub_def round_half_even_def)

lemma ex_local_stats_rank0:
  "\<exists>st. local_stats (ex_args\<lparr>local_rank := 0\<rparr>) ex_models ex_loader = Inr st
       \<and> count_errors st (0, 0, 0, 1) = Fin 0 \<and> count_errors st (0, 0, 1, 1) = Fin 0
       \<and> duration_errors st (0, 0, 0, 1) = Fin 0 \<and> amplitude_errors st (0, 0, 0, 1) = Fin 0
       \<and> improper_measures st = 0"
  by (simp add: local_stats_def upt4 window_body_def ex_simps init_stats_def zeros_def Let_def)

lemma ex_local_stats_rank1:
  "\<exists>st. local_stats (ex_args\<lparr>local_rank := 1\<rparr>) ex_models ex_loader = Inr st
       \<and> count_errors st (0, 0, 0, 1) = Fin 50 \<and> count_errors st (0, 0, 1, 1) = NaN
       \<and> duration_errors st (0, 0, 0, 1) = Fin 25 \<and> amplitude_errors st (0, 0, 0, 1) = Fin 20
       \<and> improper_measures st = 1"
  by (simp add: local_stats_def upt4 window_body_def ex_simps init_stats_def zeros_def Let_def)

lemma ex_batch:
  "get_batch ex_loader =
     [\<lparr>noisy_signals = [Fin 0, Fin 4], labels = (Fin 0, Fin 0, Fin 0)\<rparr>,
      \<lparr>noisy_signals = [Fin 0, Fin 2], labels = (Fin 2, Fin 4, Fin 5)\<rparr>]"
  "batch_size ex_loader = 2"
  by (simp_all add: ex_loader_def ex_window_def)

lemma ex_center:
  "center [Fin 0, Fin 4] = [Fin (- 2), Fin 2]"
  "center [Fin 0, Fin 2] = [Fin (- 1), Fin 1]"
  by (simp_all add: center_def mean_def f_sum_def f_sub_def Let_def)

lemma ex_model_1:
  "f_round (model_1 ex_models [Fin (- 2), Fin 2]) = Fin (- 1)"
  "f_round (model_1 ex_models [Fin (- 1), Fin 1]) = Fin 3"
  by (simp_all add: ex_models_def round_half_even_def)

lemma ex_model_2: "model_2 ex_models s e = (Fin 3000, Fin (6 * 10 ^ 10))"
  by (simp add: ex_models_def)

lemma ex_evaluate_batch:
  "evaluate_batch ex_models (get_batch ex_loader) =
     \<lparr>zero_pulse_indices = [],
      external = [Fin (- 1), Fin 3],
      outputs = [(Fin 3000, Fin (6 * 10 ^ 10)), (Fin 3000, Fin (6 * 10 ^ 10))],
      model_calls = [Counter [[Fin (- 2), Fin 2], [Fin (- 1), Fin 1]],
                     Predictor [[Fin (- 2), Fin 2], [Fin (- 1), Fin 1]] [Fin (- 1), Fin 3]]\<rparr>"
  by (simp add: evaluate_batch_def Let_def ex_batch ex_center ex_model_1 ex_model_2 upt2)

lemma ex_run_model_sums:
  "run_model_sums ex_models ex_loader =
     Inr \<lparr>count_error = Tens (Fin 50), duration_error = Tens (Fin 25),
          amplitude_error = Tens (Fin 20), measures = 1, improper_measures_run = 1\<rparr>"
  by (simp add: run_model_sums_def Let_def ex_evaluate_batch)
     (simp add: ex_batch upt2 batch_body_def init_acc_def pct_error_def f_sub_def)

section \<open>Errors recorded for a window that holds pulses\<close>

text \<open>
  C1: for every window of the local rank's shard whose label has a positive pulse count,
  the run records at the cell of the window the percentage errors against the label: the
  count error is \<^verbatim>\<open>abs((labels[0] - round(count)) / labels[0]) * 100\<close> for the count that
  the counter gives on the centred signal, and the duration and amplitude errors are
  \<^verbatim>\<open>abs((labels[k] - output) / labels[k]) * 100\<close> for the two outputs of the predictor,
  scaled by \<^verbatim>\<open>10**(-3)\<close> and \<^verbatim>\<open>10**(-10)\<close>. The run returns whenever the modulus is
  not zero and the loader has no more windows than its grid has cells.
\<close>

theorem local_stats_positive_window:
  assumes "world_size A \<noteq> 0" "total_number_of_windows V \<le> grid_size (shape V)"
    and "i < total_number_of_windows V" "int i mod world_size A = local_rank A"
    and "unravel_index i (shape V) = Inr idx"
    and "f_less (Fin 0) (label_at V idx 0)"
  shows "\<exists>st. local_stats A M V = Inr st
       \<and> count_errors st idx = pct_error (label_at V idx 0) (f_round (model_1 M (signal_at V idx)))
       \<and> duration_errors st idx = pct_error (label_at V idx 1)
            (f_mul (fst (model_2 M (signal_at V idx) (f_round (model_1 M (signal_at V idx)))))
               (Fin (1 / 10 ^ 3)))
       \<and> amplitude_errors st idx = pct_error (label_at V idx 2)
            (f_mul (snd (model_2 M (signal_at V idx) (f_round (model_1 M (signal_at V idx)))))
               (Fin (1 / 10 ^ 10)))"
proof -
  from local_stats_ok [OF assms(1,2)] obtain st where st: "local_stats A M V = Inr st" ..
  from window_body_ok [OF assms(5)] obtain t where t: "window_body M V i init_stats = Inr t" ..
  from local_stats_cell [OF assms(1) st assms(3,4,5) t]
    window_body_positive(1,2,3) [OF t assms(5,6)] st
  show ?thesis by (simp add: count_at_def)
qed

theorem local_stats_positive_window_witness:
  "\<exists>st. local_stats ex_args ex_models ex_loader = Inr st
       \<and> count_errors st (0, 0, 0, 1) = Fin 50
       \<and> duration_errors st (0, 0, 0, 1) = Fin 25
       \<and> amplitude_errors st (0, 0, 0, 1) = Fin 20"
proof -
  have h1: "world_size ex_args \<noteq> 0" by (simp add: ex_args_def)
  have h2: "total_number_of_windows ex_loader \<le> grid_size (shape ex_loader)"
    by (simp add: ex_loader_def)
  have h3: "1 < total_number_of_windows ex_loader" by (simp add: ex_loader_def)
  have h4: "int 1 mod world_size ex_args = local_rank ex_args" by (simp add: ex_args_def)
  have h5: "unravel_index 1 (shape ex_loader) = Inr (0, 0, 0, 1)" by (simp add: ex_loader_def)
  have h6: "f_less (Fin 0) (label_at ex_loader (0, 0, 0, 1) 0)" by (simp add: ex_simps)
  from local_stats_positive_window [OF h1 h2 h3 h4 h5 h6, of ex_models]
  show ?thesis by (simp add: ex_simps)
qed

section \<open>Improper measures in compute_error_stats\<close>

text \<open>
  C2: for every window of the local rank's shard whose label has zero pulses, the window
  is counted as an improper measure exactly when the rounded count of the counter is one
  or more: it then adds one to \<^verbatim>\<open>improper_measures\<close> (the final counter is the number of
  improper windows of the shard) and the three tensors hold NaN at its cell; otherwise the
  three tensors hold 0.0 at its cell.
\<close>

theorem local_stats_zero_window:
  assumes "world_size A \<noteq> 0" "total_number_of_windows V \<le> grid_size (shape V)"
    and "i < total_number_of_windows V" "int i mod world_size A = local_rank A"
    and "unravel_index i (shape V) = Inr idx"
    and "label_at V idx 0 = Fin 0"
  shows "\<exists>st. local_stats A M V = Inr st
       \<and> improper_measures st =
           length (filter (improper_window M V) (shard A (total_number_of_windows V)))
       \<and> improper_window M V i = f_le (Fin 1) (f_round (model_1 M (signal_at V idx)))
       \<and> (count_errors st idx = NaN \<and> duration_errors st idx = NaN \<and>
          amplitude_errors st idx = NaN) = f_le (Fin 1) (f_round (model_1 M (signal_at V idx)))
       \<and> (count_errors st idx = Fin 0 \<and> duration_errors st idx = Fin 0 \<and>
          amplitude_errors st idx = Fin 0) = (\<not> f_le (Fin 1) (f_round (model_1 M (signal_at V idx))))"
proof -
  from local_stats_ok [OF assms(1,2)] obtain st where st: "local_stats A M V = Inr st" ..
  from window_body_ok [OF assms(5)] obtain t where t: "window_body M V i init_stats = Inr t" ..
  from assms(6) have np: "\<not> f_less (Fin 0) (label_at V idx 0)" by simp
  have pos: "f_less (Fin 0) (count_at M V idx) = f_le (Fin 1) (f_round (model_1 M (signal_at V idx)))"
    by (simp add: count_at_def f_round_positive)
  from st assms(1)
  have "process_windows M V (shard A (total_number_of_windows V)) init_stats = Inr st"
    by (simp add: local_stats_process)
  from process_windows_improper [OF this]
  have n: "improper_measures st =
           length (filter (improper_window M V) (shard A (total_number_of_windows V)))"
    by (simp add: init_stats_def)
  have w: "improper_window M V i = f_le (Fin 1) (f_round (model_1 M (signal_at V idx)))"
    using assms(5) np pos by (simp add: improper_window_def)
  from local_stats_cell [OF assms(1) st assms(3,4,5) t]
    window_body_nonpositive(1,2,3) [OF t assms(5) np] pos
  have "(count_errors st idx = NaN \<and> duration_errors st idx = NaN \<and>
          amplitude_errors st idx = NaN) = f_le (Fin 1) (f_round (model_1 M (signal_at V idx)))"
    and "(count_errors st idx = Fin 0 \<and> duration_errors st idx = Fin 0 \<and>
          amplitude_errors st idx = Fin 0) = (\<not> f_le (Fin 1) (f_round (model_1 M (signal_at V idx))))"
    by simp_all
  with st n w show ?thesis by blast
qed

theorem local_stats_zero_window_witness:
  "\<exists>st. local_stats ex_args ex_models ex_loader = Inr st
       \<and> improper_measures st = 1
       \<and> improper_window ex_models ex_loader 3
       \<and> count_errors st (0, 0, 1, 1) = NaN
       \<and> duration_errors st (0, 0, 1, 1) = NaN
       \<and> amplitude_errors st (0, 0, 1, 1) = NaN"
proof -
  have h1: "world_size ex_args \<noteq> 0" by (simp add: ex_args_def)
  have h2: "total_number_of_windows ex_loader \<le> grid_size (shape ex_loader)"
    by (simp add: ex_loader_def)
  have h3: "3 < total_number_of_windows ex_loader" by (simp add: ex_loader_def)
  have h4: "int 3 mod world_size ex_args = local_rank ex_args" by (simp add: ex_args_def)
  have h5: "unravel_index 3 (shape ex_loader) = Inr (0, 0, 1, 1)" by (simp add: ex_loader_def)
  have h6: "label_at ex_loader (0, 0, 1, 1) 0 = Fin 0" by (simp add: ex_simps)
  have r: "f_le (Fin 1) (f_round (model_1 ex_models (signal_at ex_loader (0, 0, 1, 1))))"
    by (simp add: ex_simps)
  have s: "shard ex_args (total_number_of_windows ex_loader) = [1, 3]"
    by (simp add: shard_def ex_args_def ex_loader_def upt4)
  have w1: "\<not> improper_window ex_models ex_loader 1"
    by (simp add: improper_window_def ex_simps)
  from local_stats_zero_window [OF h1 h2 h3 h4 h5 h6, of ex_models] r s w1
  show ?thesis by auto
qed

section \<open>The reduction across processes\<close>

text \<open>
  C3: when running distributed, each of the three returned tensors is the elementwise sum
  of the tensors that the ranks of the group accumulated, the same on every process (the
  sum does not depend on the local rank); when not distributed, the tensors accumulated
  by the process are returned as they are.
\<close>

theorem compute_error_stats_reduction:
  assumes "0 < world_size A" "total_number_of_windows V \<le> grid_size (shape V)"
  shows "\<exists>sts st. length sts = nat (world_size A)
       \<and> (\<forall>r < nat (world_size A). local_stats (A\<lparr>local_rank := int r\<rparr>) M V = Inr (sts ! r))
       \<and> local_stats A M V = Inr st
       \<and> compute_error_stats A M V =
           Inr (if distributed A
                then ((\<lambda>idx. f_sum (map (\<lambda>s. count_errors s idx) sts)),
                      (\<lambda>idx. f_sum (map (\<lambda>s. duration_errors s idx) sts)),
                      (\<lambda>idx. f_sum (map (\<lambda>s. amplitude_errors s idx) sts)),
                      improper_measures st)
                else (count_errors st, duration_errors st, amplitude_errors st,
                      improper_measures st))"
proof -
  from assms(1) have nz: "world_size A \<noteq> 0" by simp
  from local_stats_ok [OF nz assms(2)] obtain st where st: "local_stats A M V = Inr st" ..
  from group_stats_ok [OF assms] obtain sts where sts: "group_stats A M V = Inr sts"
    "length sts = nat (world_size A)"
    "\<forall>r < nat (world_size A). local_stats (A\<lparr>local_rank := int r\<rparr>) M V = Inr (sts ! r)"
    by blast
  from compute_error_stats_value [OF st sts(1)] st sts(2,3) show ?thesis by blast
qed

theorem compute_error_stats_reduction_witness:
  "\<exists>c d a n. compute_error_stats ex_args ex_models ex_loader = Inr (c, d, a, n)
     \<and> c (0, 0, 0, 1) = Fin 50 \<and> c (0, 0, 1, 1) = NaN
     \<and> d (0, 0, 0, 1) = Fin 25 \<and> a (0, 0, 0, 1) = Fin 20"
proof -
  have h1: "0 < world_size ex_args" by (simp add: ex_args_def)
  have h2: "total_number_of_windows ex_loader \<le> grid_size (shape ex_loader)"
    by (simp add: ex_loader_def)
  have w: "nat (world_size ex_args) = 2" "distributed ex_args" by (simp_all add: ex_args_def)
  from compute_error_stats_reduction [OF h1 h2, of ex_models]
  obtain sts and st :: stats where l0: "length sts = nat (world_size ex_args)"
    and s0: "\<forall>r < nat (world_size ex_args).
               local_stats (ex_args\<lparr>local_rank := int r\<rparr>) ex_models ex_loader = Inr (sts ! r)"
    and c0: "compute_error_stats ex_args ex_models ex_loader =
       Inr (if distributed ex_args
            then ((\<lambda>idx. f_sum (map (\<lambda>s. count_errors s idx) sts)),
                  (\<lambda>idx. f_sum (map (\<lambda>s. duration_errors s idx) sts)),
                  (\<lambda>idx. f_sum (map (\<lambda>s. amplitude_errors s idx) sts)),
                  improper_measures st)
            else (count_errors st, duration_errors st, amplitude_errors st,
                  improper_measures st))"
    by blast
  from l0 have l: "length sts = 2" by (simp only: w)
  from s0 have s: "\<forall>r < 2. local_stats (ex_args\<lparr>local_rank := int r\<rparr>) ex_models ex_loader = Inr (sts ! r)"
    by (simp only: w)
  from c0 have c: "compute_error_stats ex_args ex_models ex_loader =
       Inr ((\<lambda>idx. f_sum (map (\<lambda>s. count_errors s idx) sts)),
            (\<lambda>idx. f_sum (map (\<lambda>s. duration_errors s idx) sts)),
            (\<lambda>idx. f_sum (map (\<lambda>s. amplitude_errors s idx) sts)),
            improper_measures st)"
    by (simp only: w if_True)
  from l obtain t0 t1 where sts: "sts = [t0, t1]"
    by (cases sts; cases "tl sts") auto
  from s [rule_format, of 0] s [rule_format, of 1]
  have "local_stats (ex_args\<lparr>local_rank := int 0\<rparr>) ex_models ex_loader = Inr (sts ! 0)"
    and "local_stats (ex_args\<lparr>local_rank := int 1\<rparr>) ex_models ex_loader = Inr (sts ! 1)"
    by simp_all
  with sts have r0: "local_stats (ex_args\<lparr>local_rank := 0\<rparr>) ex_models ex_loader = Inr t0"
    and r1: "local_stats (ex_args\<lparr>local_rank := 1\<rparr>) ex_models ex_loader = Inr t1"
    by simp_all
  from ex_local_stats_rank0 r0 have v0: "count_errors t0 (0, 0, 0, 1) = Fin 0"
    "count_errors t0 (0, 0, 1, 1) = Fin 0" "duration_errors t0 (0, 0, 0, 1) = Fin 0"
    "amplitude_errors t0 (0, 0, 0, 1) = Fin 0" by auto
  from ex_local_stats_rank1 r1 have v1: "count_errors t1 (0, 0, 0, 1) = Fin 50"
    "count_errors t1 (0, 0, 1, 1) = NaN" "duration_errors t1 (0, 0, 0, 1) = Fin 25"
    "amplitude_errors t1 (0, 0, 0, 1) = Fin 20" by auto
  from c v0 v1 show ?thesis by (simp add: sts f_sum_def)
qed

section \<open>The grid is covered once\<close>

text \<open>
  C4: the loop of \<^verbatim>\<open>compute_error_stats\<close> runs over every flat index below
  \<^verbatim>\<open>total_number_of_windows\<close> and turns each into grid coordinates by row-major
  unravelling over the shape of the loader; the mapping is injective, and over a full run
  every cell of the grid is written exactly once. Stated for a group of \<open>W\<close> processes
  whose loader has as many windows as its grid has cells, and for any state the loop
  starts from: the loop returns and is the body run once on each index of the shard;
  every flat index has coordinates inside the grid whose row-major offset is the index
  itself, and two indices never share coordinates; for every cell of the grid the body
  runs that target the cell are one on the rank that owns its index and none on any other
  rank, so that over the ranks \<open>0, \<dots>, W - 1\<close> together exactly one body run
  targets the cell; on the owning rank the cell ends with the values which that run of
  the body writes, whatever the cell held before; and every cell that the rank does not
  own ends as it started.
\<close>

theorem full_run_writes_grid_once:
  assumes "0 < world_size A" "total_number_of_windows V = grid_size (shape V)"
  shows "\<exists>st. stats_loop A M V [0..<total_number_of_windows V] s0 = Inr st
       \<and> process_windows M V (shard A (total_number_of_windows V)) s0 = Inr st
       \<and> (\<forall>i < total_number_of_windows V.
             \<exists>idx. unravel_index i (shape V) = Inr idx \<and> in_grid (shape V) idx \<and>
                   ravel (shape V) idx = i)
       \<and> (\<forall>i j idx. unravel_index i (shape V) = Inr idx \<and> unravel_index j (shape V) = Inr idx
             \<longrightarrow> i = j)
       \<and> (\<forall>idx. in_grid (shape V) idx \<longrightarrow>
             length (filter (\<lambda>i. unravel_index i (shape V) = Inr idx)
                       (shard A (total_number_of_windows V)))
               = (if int (ravel (shape V) idx) mod world_size A = local_rank A then 1 else 0)
             \<and> concat (map (\<lambda>r. filter (\<lambda>i. unravel_index i (shape V) = Inr idx)
                                      (shard (A\<lparr>local_rank := int r\<rparr>)
                                         (total_number_of_windows V)))
                             [0..<nat (world_size A)])
               = [ravel (shape V) idx])
       \<and> (\<forall>idx s t. in_grid (shape V) idx
               \<and> int (ravel (shape V) idx) mod world_size A = local_rank A
               \<and> window_body M V (ravel (shape V) idx) s = Inr t
             \<longrightarrow> count_errors st idx = count_errors t idx
               \<and> duration_errors st idx = duration_errors t idx
               \<and> amplitude_errors st idx = amplitude_errors t idx)
       \<and> (\<forall>idx. \<not> (in_grid (shape V) idx
                     \<and> int (ravel (shape V) idx) mod world_size A = local_rank A)
             \<longrightarrow> count_errors st idx = count_errors s0 idx
               \<and> duration_errors st idx = duration_errors s0 idx
               \<and> amplitude_errors st idx = amplitude_errors s0 idx)"
proof -
  let ?N = "total_number_of_windows V"
  let ?W = "world_size A"
  from assms(1) have nz: "?W \<noteq> 0" by simp
  from assms(2) have le: "?N \<le> grid_size (shape V)" by simp
  from stats_loop_ok [OF nz le] obtain st where
    st: "stats_loop A M V [0..<?N] s0 = Inr st" and
    pw: "process_windows M V (shard A ?N) s0 = Inr st" by blast
  have mem: "\<And>idx. in_grid (shape V) idx \<Longrightarrow>
       (ravel (shape V) idx \<in> set (shard A ?N)) =
       (int (ravel (shape V) idx) mod ?W = local_rank A)"
  proof -
    fix idx assume g: "in_grid (shape V) idx"
    from unravel_index_ravel [OF ravel_unravel_index [OF g]] assms(2)
    have "ravel (shape V) idx < ?N" by simp
    then show "(ravel (shape V) idx \<in> set (shard A ?N)) =
       (int (ravel (shape V) idx) mod ?W = local_rank A)"
      by (simp add: shard_set)
  qed
  have c1: "\<forall>i < ?N. \<exists>idx. unravel_index i (shape V) = Inr idx \<and> in_grid (shape V) idx \<and>
                   ravel (shape V) idx = i"
  proof (intro allI impI)
    fix i assume "i < ?N"
    with assms(2) obtain idx where u: "unravel_index i (shape V) = Inr idx"
      using unravel_index_ok by metis
    with unravel_index_ravel [OF u]
    show "\<exists>idx. unravel_index i (shape V) = Inr idx \<and> in_grid (shape V) idx \<and>
                ravel (shape V) idx = i" by blast
  qed
  have c2: "\<forall>i j idx. unravel_index i (shape V) = Inr idx \<and> unravel_index j (shape V) = Inr idx
             \<longrightarrow> i = j"
    using unravel_index_inject by blast
  have c3: "\<forall>idx. in_grid (shape V) idx \<longrightarrow>
             length (filter (\<lambda>i. unravel_index i (shape V) = Inr idx) (shard A ?N))
               = (if int (ravel (shape V) idx) mod ?W = local_rank A then 1 else 0)
             \<and> concat (map (\<lambda>r. filter (\<lambda>i. unravel_index i (shape V) = Inr idx)
                                      (shard (A\<lparr>local_rank := int r\<rparr>) ?N))
                             [0..<nat ?W])
               = [ravel (shape V) idx]"
  proof (intro allI impI conjI)
    fix idx assume g: "in_grid (shape V) idx"
    show "length (filter (\<lambda>i. unravel_index i (shape V) = Inr idx) (shard A ?N))
               = (if int (ravel (shape V) idx) mod ?W = local_rank A then 1 else 0)"
      by (simp add: shard_writes_of_cell [OF g] mem [OF g])
    from unravel_index_ravel [OF ravel_unravel_index [OF g]] assms(2)
    have "ravel (shape V) idx < ?N" by simp
    from group_writes_of_cell [OF assms(1) g this]
    show "concat (map (\<lambda>r. filter (\<lambda>i. unravel_index i (shape V) = Inr idx)
                                      (shard (A\<lparr>local_rank := int r\<rparr>) ?N))
                             [0..<nat ?W])
               = [ravel (shape V) idx]" .
  qed
  have c4: "\<forall>idx s t. in_grid (shape V) idx
               \<and> int (ravel (shape V) idx) mod ?W = local_rank A
               \<and> window_body M V (ravel (shape V) idx) s = Inr t
             \<longrightarrow> count_errors st idx = count_errors t idx
               \<and> duration_errors st idx = duration_errors t idx
               \<and> amplitude_errors st idx = amplitude_errors t idx"
  proof (intro allI impI)
    fix idx s t
    assume a: "in_grid (shape V) idx
               \<and> int (ravel (shape V) idx) mod ?W = local_rank A
               \<and> window_body M V (ravel (shape V) idx) s = Inr t"
    then have g: "in_grid (shape V) idx" and b: "window_body M V (ravel (shape V) idx) s = Inr t"
      by simp_all
    from a mem [OF g] have m: "ravel (shape V) idx \<in> set (shard A ?N)" by simp
    from process_windows_cell [OF pw shard_distinct m ravel_unravel_index [OF g] b]
    show "count_errors st idx = count_errors t idx
               \<and> duration_errors st idx = duration_errors t idx
               \<and> amplitude_errors st idx = amplitude_errors t idx" .
  qed
  have c5: "\<forall>idx. \<not> (in_grid (shape V) idx
                     \<and> int (ravel (shape V) idx) mod ?W = local_rank A)
             \<longrightarrow> count_errors st idx = count_errors s0 idx
               \<and> duration_errors st idx = duration_errors s0 idx
               \<and> amplitude_errors st idx = amplitude_errors s0 idx"
  proof (intro allI impI)
    fix idx
    assume n: "\<not> (in_grid (shape V) idx \<and> int (ravel (shape V) idx) mod ?W = local_rank A)"
    have "\<forall>j \<in> set (shard A ?N). unravel_index j (shape V) \<noteq> Inr idx"
    proof
      fix j assume j: "j \<in> set (shard A ?N)"
      show "unravel_index j (shape V) \<noteq> Inr idx"
      proof
        assume u: "unravel_index j (shape V) = Inr idx"
        from unravel_index_ravel [OF u] have "ravel (shape V) idx = j" "in_grid (shape V) idx"
          by simp_all
        with j n show False by (simp add: shard_set)
      qed
    qed
    from process_windows_untouched [OF pw this]
    show "count_errors st idx = count_errors s0 idx
               \<and> duration_errors st idx = duration_errors s0 idx
               \<and> amplitude_errors st idx = amplitude_errors s0 idx" .
  qed
  from st pw c1 c2 c3 c4 c5 show ?thesis by blast
qed

theorem full_run_writes_grid_once_witness:
  "\<exists>st. stats_loop ex_args ex_models ex_loader [0..<total_number_of_windows ex_loader]
            init_stats = Inr st
       \<and> process_windows ex_models ex_loader [1, 3] init_stats = Inr st
       \<and> unravel_index 1 (shape ex_loader) = Inr (0, 0, 0, 1)
       \<and> length (filter (\<lambda>i. unravel_index i (shape ex_loader) = Inr (0, 0, 0, 1))
                   (shard ex_args 4)) = 1
       \<and> length (filter (\<lambda>i. unravel_index i (shape ex_loader) = Inr (0, 0, 1, 0))
                   (shard ex_args 4)) = 0
       \<and> concat (map (\<lambda>r. filter (\<lambda>i. unravel_index i (shape ex_loader) = Inr (0, 0, 1, 0))
                              (shard (ex_args\<lparr>local_rank := int r\<rparr>) 4))
                     [0..<2]) = [2]
       \<and> count_errors st (0, 0, 0, 1) = Fin 50
       \<and> count_errors st (0, 0, 1, 0) = Fin 0"
proof -
  have h1: "0 < world_size ex_args" by (simp add: ex_args_def)
  have h2: "total_number_of_windows ex_loader = grid_size (shape ex_loader)"
    by (simp add: ex_loader_def)
  have w: "nat (world_size ex_args) = 2" "world_size ex_args = 2" "local_rank ex_args = 1"
    by (simp_all add: ex_args_def)
  have g1: "in_grid (shape ex_loader) (0, 0, 0, 1)" and g2: "in_grid (shape ex_loader) (0, 0, 1, 0)"
    by (simp_all add: ex_loader_def)
  have r1: "ravel (shape ex_loader) (0, 0, 0, 1) = 1" and r2: "ravel (shape ex_loader) (0, 0, 1, 0) = 2"
    by (simp_all add: ex_loader_def)
  have u1: "unravel_index 1 (shape ex_loader) = Inr (0, 0, 0, 1)"
    by (simp add: ex_unravel)
  from window_body_ok [OF u1] obtain t where t: "window_body ex_models ex_loader 1 init_stats = Inr t" ..
  have l: "f_less (Fin 0) (label_at ex_loader (0, 0, 0, 1) 0)" by (simp add: ex_label_at)
  from window_body_positive(1) [OF t u1 l]
  have tv: "count_errors t (0, 0, 0, 1) = Fin 50"
    by (simp add: ex_label_at ex_count_at pct_error_def f_sub_def)
  from full_run_writes_grid_once [OF h1 h2, of ex_models init_stats]
  obtain st where
    a: "stats_loop ex_args ex_models ex_loader [0..<total_number_of_windows ex_loader]
          init_stats = Inr st"
    and b: "process_windows ex_models ex_loader
              (shard ex_args (total_number_of_windows ex_loader)) init_stats = Inr st"
    and c: "\<forall>idx. in_grid (shape ex_loader) idx \<longrightarrow>
             length (filter (\<lambda>i. unravel_index i (shape ex_loader) = Inr idx)
                       (shard ex_args (total_number_of_windows ex_loader)))
               = (if int (ravel (shape ex_loader) idx) mod world_size ex_args = local_rank ex_args
                  then 1 else 0)
             \<and> concat (map (\<lambda>r. filter (\<lambda>i. unravel_index i (shape ex_loader) = Inr idx)
                                      (shard (ex_args\<lparr>local_rank := int r\<rparr>)
                                         (total_number_of_windows ex_loader)))
                             [0..<nat (world_size ex_args)])
               = [ravel (shape ex_loader) idx]"
    and d: "\<forall>idx s t. in_grid (shape ex_loader) idx
               \<and> int (ravel (shape ex_loader) idx) mod world_size ex_args = local_rank ex_args
               \<and> window_body ex_models ex_loader (ravel (shape ex_loader) idx) s = Inr t
             \<longrightarrow> count_errors st idx = count_errors t idx
               \<and> duration_errors st idx = duration_errors t idx
               \<and> amplitude_errors st idx = amplitude_errors t idx"
    and e: "\<forall>idx. \<not> (in_grid (shape ex_loader) idx
                     \<and> int (ravel (shape ex_loader) idx) mod world_size ex_args
                         = local_rank ex_args)
             \<longrightarrow> count_errors st idx = count_errors init_stats idx
               \<and> duration_errors st idx = duration_errors init_stats idx
               \<and> amplitude_errors st idx = amplitude_errors init_stats idx"
    by blast
  from b have b': "process_windows ex_models ex_loader [1, 3] init_stats = Inr st"
    by (simp add: ex_total ex_shards)
  from c g1 have c1: "length (filter (\<lambda>i. unravel_index i (shape ex_loader) = Inr (0, 0, 0, 1))
                   (shard ex_args (total_number_of_windows ex_loader)))
        = (if int (ravel (shape ex_loader) (0, 0, 0, 1)) mod world_size ex_args
              = local_rank ex_args then 1 else 0)"
    by blast
  then have c1': "length (filter (\<lambda>i. unravel_index i (shape ex_loader) = Inr (0, 0, 0, 1))
                   (shard ex_args 4)) = 1"
    by (simp only: r1 w ex_total) simp
  from c g2 have c2: "length (filter (\<lambda>i. unravel_index i (shape ex_loader) = Inr (0, 0, 1, 0))
                   (shard ex_args (total_number_of_windows ex_loader)))
        = (if int (ravel (shape ex_loader) (0, 0, 1, 0)) mod world_size ex_args
              = local_rank ex_args then 1 else 0)"
    and c3: "concat (map (\<lambda>r. filter (\<lambda>i. unravel_index i (shape ex_loader) = Inr (0, 0, 1, 0))
                                      (shard (ex_args\<lparr>local_rank := int r\<rparr>)
                                         (total_number_of_windows ex_loader)))
                             [0..<nat (world_size ex_args)])
               = [ravel (shape ex_loader) (0, 0, 1, 0)]"
    by blast+
  from c2 have c2': "length (filter (\<lambda>i. unravel_index i (shape ex_loader) = Inr (0, 0, 1, 0))
                   (shard ex_args 4)) = 0"
    by (simp only: r2 w ex_total) simp
  from c3 have c3': "concat (map (\<lambda>r. filter (\<lambda>i. unravel_index i (shape ex_loader) = Inr (0, 0, 1, 0))
                              (shard (ex_args\<lparr>local_rank := int r\<rparr>) 4))
                     [0..<2]) = [2]"
    by (simp only: r2 w(1) ex_total)
  have "in_grid (shape ex_loader) (0, 0, 0, 1)
        \<and> int (ravel (shape ex_loader) (0, 0, 0, 1)) mod world_size ex_args = local_rank ex_args
        \<and> window_body ex_models ex_loader (ravel (shape ex_loader) (0, 0, 0, 1)) init_stats = Inr t"
    unfolding r1 w using g1 t by simp
  with d have "count_errors st (0, 0, 0, 1) = count_errors t (0, 0, 0, 1)" by blast
  with tv have v1: "count_errors st (0, 0, 0, 1) = Fin 50" by simp
  have "\<not> (in_grid (shape ex_loader) (0, 0, 1, 0)
           \<and> int (ravel (shape ex_loader) (0, 0, 1, 0)) mod world_size ex_args
               = local_rank ex_args)"
    unfolding r2 w by simp
  with e have "count_errors st (0, 0, 1, 0) = count_errors init_stats (0, 0, 1, 0)" by blast
  then have v2: "count_errors st (0, 0, 1, 0) = Fin 0" by (simp add: init_stats_def zeros_def)
  from a b' u1 c1' c2' c3' v1 v2 show ?thesis by blast
qed

section \<open>Sharding by flat index\<close>

text \<open>
  C5: the process of rank \<open>r\<close> in a group of \<open>W\<close> processes runs the body of the loop
  on exactly the flat indices \<open>i\<close> with \<open>i mod W = r\<close>, in increasing order; the shards
  of two different ranks are disjoint, and the shards of the ranks \<open>0, \<dots>, W - 1\<close>
  together are all the windows.
\<close>

theorem shards_partition_windows:
  assumes "0 < world_size A"
  shows "local_stats A M V =
           process_windows M V (shard A (total_number_of_windows V)) init_stats
       \<and> set (shard A n) = {i. i < n \<and> int i mod world_size A = local_rank A}
       \<and> (\<forall>r r'. r \<noteq> r' \<longrightarrow>
             set (shard (A\<lparr>local_rank := r\<rparr>) n) \<inter> set (shard (A\<lparr>local_rank := r'\<rparr>) n) = {})
       \<and> (\<Union>r \<in> {0..<world_size A}. set (shard (A\<lparr>local_rank := r\<rparr>) n)) = {0..<n}"
proof (intro conjI)
  from assms have "world_size A \<noteq> 0" by simp
  then show "local_stats A M V =
           process_windows M V (shard A (total_number_of_windows V)) init_stats"
    by (rule local_stats_process)
  show "set (shard A n) = {i. i < n \<and> int i mod world_size A = local_rank A}"
    by (rule shard_set)
  show "\<forall>r r'. r \<noteq> r' \<longrightarrow>
             set (shard (A\<lparr>local_rank := r\<rparr>) n) \<inter> set (shard (A\<lparr>local_rank := r'\<rparr>) n) = {}"
    by (auto simp: shard_set)
  show "(\<Union>r \<in> {0..<world_size A}. set (shard (A\<lparr>local_rank := r\<rparr>) n)) = {0..<n}"
  proof (intro set_eqI iffI)
    fix i assume "i \<in> (\<Union>r \<in> {0..<world_size A}. set (shard (A\<lparr>local_rank := r\<rparr>) n))"
    then show "i \<in> {0..<n}" by (auto simp: shard_set)
  next
    fix i assume "i \<in> {0..<n}"
    moreover have "int i mod world_size A \<in> {0..<world_size A}"
      using assms by simp
    ultimately show "i \<in> (\<Union>r \<in> {0..<world_size A}. set (shard (A\<lparr>local_rank := r\<rparr>) n))"
      by (auto simp: shard_set)
  qed
qed

theorem shards_partition_windows_witness:
  "0 < world_size ex_args
   \<and> local_stats ex_args ex_models ex_loader =
       process_windows ex_models ex_loader [1, 3] init_stats
   \<and> set (shard ex_args 4) = {1, 3}
   \<and> set (shard (ex_args\<lparr>local_rank := 0\<rparr>) 4) \<inter> set (shard (ex_args\<lparr>local_rank := 1\<rparr>) 4) = {}
   \<and> set (shard (ex_args\<lparr>local_rank := 0\<rparr>) 4) \<union> set (shard (ex_args\<lparr>local_rank := 1\<rparr>) 4)
       = {0..<4}"
proof -
  have h: "0 < world_size ex_args" by (simp add: ex_args_def)
  have t: "total_number_of_windows ex_loader = 4" by (simp add: ex_loader_def)
  have ne: "(0::int) \<noteq> 1" by simp
  have w: "{0..<world_size ex_args} = {0, 1}" by (auto simp: ex_args_def)
  note p = shards_partition_windows [OF h, of ex_models ex_loader 4, unfolded t]
  from p have 1: "local_stats ex_args ex_models ex_loader =
             process_windows ex_models ex_loader (shard ex_args 4) init_stats"
    and 3: "\<forall>r r'. r \<noteq> r' \<longrightarrow>
             set (shard (ex_args\<lparr>local_rank := r\<rparr>) 4) \<inter> set (shard (ex_args\<lparr>local_rank := r'\<rparr>) 4) = {}"
    and 4: "(\<Union>r \<in> {0..<world_size ex_args}. set (shard (ex_args\<lparr>local_rank := r\<rparr>) 4)) = {0..<4}"
    by blast+
  from 3 ne have 5: "set (shard (ex_args\<lparr>local_rank := 0\<rparr>) 4) \<inter> set (shard (ex_args\<lparr>local_rank := 1\<rparr>) 4) = {}"
    by blast
  from 4 have 6: "set (shard (ex_args\<lparr>local_rank := 0\<rparr>) 4) \<union> set (shard (ex_args\<lparr>local_rank := 1\<rparr>) 4) = {0..<4}"
    by (simp only: w) simp
  from h 1 5 6 show ?thesis by (simp add: ex_shards)
qed

section \<open>The two evaluations are chained\<close>

text \<open>
  C6, as stated: for every window of \<^verbatim>\<open>compute_error_stats\<close> the predictor is evaluated
  with the rounded output of the counter. On window 0 of the small validation set, whose
  label has zero pulses, the only evaluation is the one of the counter.
\<close>

theorem zero_label_window_skips_predictor:
  "label_at ex_loader (0, 0, 0, 0) 0 = Fin 0
   \<and> unravel_index 0 (shape ex_loader) = Inr (0, 0, 0, 0)
   \<and> map_sum id calls (window_body ex_models ex_loader 0 init_stats)
       = Inr [Counter [[Fin 0, Fin 0]]]"
  by (simp add: ex_label_at ex_unravel)
     (simp add: window_body_def Let_def ex_loader_def ex_window_def ex_models_def
        center_def mean_def f_sum_def f_sub_def round_half_even_def init_stats_def)

text \<open>
  C6, amended: for every window of \<^verbatim>\<open>compute_error_stats\<close> the counter is evaluated on
  the mean-centred noisy signal, and when the label has a positive pulse count the
  predictor is evaluated next, on the same centred signal and with the rounded output of
  the counter as its external input; a window whose label has no positive count gets no
  evaluation of the predictor. For every batch of \<^verbatim>\<open>run_model\<close> the predictor is
  evaluated on the same centred signals as the counter, with the rounded outputs of the
  counter as its external input.
\<close>

theorem model_evaluations_chained:
  assumes "unravel_index i (shape V) = Inr idx"
  shows "\<exists>st'. window_body M V i st = Inr st'
       \<and> calls st' = calls st @
           (if f_less (Fin 0) (label_at V idx 0)
            then [Counter [center (noisy_signals (get_signal_window V idx))],
                  Predictor [center (noisy_signals (get_signal_window V idx))]
                    [f_round (model_1 M (center (noisy_signals (get_signal_window V idx))))]]
            else [Counter [center (noisy_signals (get_signal_window V idx))]])
       \<and> model_calls (evaluate_batch M ws) =
           [Counter (map (\<lambda>w. center (noisy_signals w)) ws),
            Predictor (map (\<lambda>w. center (noisy_signals w)) ws)
              (map (\<lambda>w. f_round (model_1 M (center (noisy_signals w)))) ws)]"
proof -
  note a = window_body_calls [OF assms, of M st, unfolded signal_at_def]
  from a evaluate_batch_calls [of M ws] show ?thesis by blast
qed

theorem model_evaluations_chained_witness:
  "\<exists>st'. window_body ex_models ex_loader 1 init_stats = Inr st'
       \<and> calls st' = [Counter [[Fin (- 1), Fin 1]], Predictor [[Fin (- 1), Fin 1]] [Fin 3]]
       \<and> model_calls (evaluate_batch ex_models (get_batch ex_loader)) =
           [Counter [[Fin (- 2), Fin 2], [Fin (- 1), Fin 1]],
            Predictor [[Fin (- 2), Fin 2], [Fin (- 1), Fin 1]] [Fin (- 1), Fin 3]]"
proof -
  have h: "unravel_index 1 (shape ex_loader) = Inr (0, 0, 0, 1)"
    by (simp add: ex_unravel)
  have c: "center (noisy_signals (get_signal_window ex_loader (0, 0, 0, 1))) = [Fin (- 1), Fin 1]"
    using ex_signal_at(2) by (simp add: signal_at_def)
  have l: "f_less (Fin 0) (label_at ex_loader (0, 0, 0, 1) 0)"
    by (simp add: ex_label_at)
  from model_evaluations_chained [OF h, of ex_models init_stats "get_batch ex_loader"]
  show ?thesis
    unfolding c using l
    by (simp add: ex_model_1 init_stats_def ex_batch ex_center)
qed

section \<open>Improper measures in run_model\<close>

text \<open>
  C7: \<^verbatim>\<open>run_model\<close> on the batch of the small validation set. Row 0 has a label with zero
  pulses and the counter answers -1 on it, which is not one or more pulses; yet the loop
  counts one improper measure, because the row is not among \<^verbatim>\<open>zero_pulse_indices\<close>. The
  test of \<^verbatim>\<open>compute_error_stats\<close> on the same window (flat index 2) does not count it.
\<close>

theorem run_model_negative_count_is_improper:
  "run_model_sums ex_models ex_loader =
     Inr \<lparr>count_error = Tens (Fin 50), duration_error = Tens (Fin 25),
          amplitude_error = Tens (Fin 20), measures = 1, improper_measures_run = 1\<rparr>
   \<and> map (\<lambda>w. fst (labels w)) (get_batch ex_loader) = [Fin 0, Fin 2]
   \<and> external (evaluate_batch ex_models (get_batch ex_loader)) = [Fin (- 1), Fin 3]
   \<and> get_batch ex_loader ! 0 = get_signal_window ex_loader (0, 0, 1, 0)
   \<and> unravel_index 2 (shape ex_loader) = Inr (0, 0, 1, 0)
   \<and> improper_window ex_models ex_loader 2 = False"
  by (simp add: ex_run_model_sums ex_evaluate_batch ex_improper_window ex_unravel)
     (simp add: ex_loader_def ex_window_def)

section \<open>One window writes one cell\<close>

text \<open>
  C8: handling one window writes the cell of that window in each of the three tensors and
  nothing else: every other cell of the three tensors keeps its value, the counter of
  improper measures stays or grows by one, and the values written do not depend on the
  state before (no feedback from earlier windows).
\<close>

theorem window_body_writes_one_cell:
  assumes "window_body M V i st = Inr st'"
  shows "\<exists>idx. unravel_index i (shape V) = Inr idx
       \<and> (\<forall>jdx. jdx \<noteq> idx \<longrightarrow>
             count_errors st' jdx = count_errors st jdx \<and>
             duration_errors st' jdx = duration_errors st jdx \<and>
             amplitude_errors st' jdx = amplitude_errors st jdx)
       \<and> (improper_measures st' = improper_measures st \<or>
          improper_measures st' = improper_measures st + 1)
       \<and> (\<forall>s t. window_body M V i s = Inr t \<longrightarrow>
             count_errors t idx = count_errors st' idx \<and>
             duration_errors t idx = duration_errors st' idx \<and>
             amplitude_errors t idx = amplitude_errors st' idx)"
proof -
  from window_body_unravel [OF assms] obtain idx where u: "unravel_index i (shape V) = Inr idx" ..
  have "improper_measures st' = improper_measures st \<or>
        improper_measures st' = improper_measures st + 1"
    using window_body_improper [OF assms] by (simp split: if_splits)
  moreover have "\<forall>jdx. jdx \<noteq> idx \<longrightarrow>
             count_errors st' jdx = count_errors st jdx \<and>
             duration_errors st' jdx = duration_errors st jdx \<and>
             amplitude_errors st' jdx = amplitude_errors st jdx"
    using window_body_frame [OF assms u] by simp
  moreover have "\<forall>s t. window_body M V i s = Inr t \<longrightarrow>
             count_errors t idx = count_errors st' idx \<and>
             duration_errors t idx = duration_errors st' idx \<and>
             amplitude_errors t idx = amplitude_errors st' idx"
    using window_body_cells_indep [OF _ assms u] by blast
  ultimately show ?thesis using u by blast
qed

theorem window_body_writes_one_cell_witness:
  "\<exists>st'. window_body ex_models ex_loader 3 init_stats = Inr st'
       \<and> unravel_index 3 (shape ex_loader) = Inr (0, 0, 1, 1)
       \<and> count_errors st' (0, 0, 0, 1) = Fin 0
       \<and> duration_errors st' (0, 0, 0, 1) = Fin 0
       \<and> amplitude_errors st' (0, 0, 0, 1) = Fin 0
       \<and> count_errors st' (0, 0, 1, 1) = NaN
       \<and> improper_measures st' = 1"
proof -
  let ?t = "init_stats\<lparr>count_errors := zeros((0, 0, 1, 1) := NaN),
                     duration_errors := zeros((0, 0, 1, 1) := NaN),
                     amplitude_errors := zeros((0, 0, 1, 1) := NaN),
                     improper_measures := 1,
                     calls := [Counter [[Fin (- 3), Fin 3]]]\<rparr>"
  have h: "window_body ex_models ex_loader 3 init_stats = Inr ?t"
    by (rule ex_window_body_3)
  from window_body_writes_one_cell [OF h] obtain idx where
    u: "unravel_index 3 (shape ex_loader) = Inr idx" and
    f: "\<forall>jdx. jdx \<noteq> idx \<longrightarrow>
             count_errors ?t jdx = count_errors init_stats jdx \<and>
             duration_errors ?t jdx = duration_errors init_stats jdx \<and>
             amplitude_errors ?t jdx = amplitude_errors init_stats jdx"
    by blast
  from u have idx: "idx = (0, 0, 1, 1)" by (simp add: ex_loader_def)
  have ne: "(0, 0, 0, 1) \<noteq> idx" using idx by simp
  from f ne have c: "count_errors ?t (0, 0, 0, 1) = count_errors init_stats (0, 0, 0, 1)"
    and d: "duration_errors ?t (0, 0, 0, 1) = duration_errors init_stats (0, 0, 0, 1)"
    and a: "amplitude_errors ?t (0, 0, 0, 1) = amplitude_errors init_stats (0, 0, 0, 1)"
    by blast+
  have z: "count_errors init_stats (0, 0, 0, 1) = Fin 0"
    "duration_errors init_stats (0, 0, 0, 1) = Fin 0"
    "amplitude_errors init_stats (0, 0, 0, 1) = Fin 0"
    by (simp_all add: init_stats_def zeros_def)
  have n: "count_errors ?t (0, 0, 1, 1) = NaN" "improper_measures ?t = 1" by simp_all
  show ?thesis
    using h u idx c d a z n by (intro exI [of _ ?t]) (simp only: simp_thms)
qed

section \<open>The counter of improper measures stays local\<close>

text \<open>
  C9: the fourth returned value is the number of improper windows of the local rank's
  shard, distributed or not: it is never summed across the processes. It is at most the
  number of improper windows of the whole validation set, and strictly less as soon as
  the shard of another rank holds an improper window.
\<close>

theorem improper_measures_not_reduced:
  assumes "0 < world_size A" "total_number_of_windows V \<le> grid_size (shape V)"
  shows "\<exists>c d a n. compute_error_stats A M V = Inr (c, d, a, n)
       \<and> n = length (filter (improper_window M V) (shard A (total_number_of_windows V)))
       \<and> n \<le> length (filter (improper_window M V) [0..<total_number_of_windows V])
       \<and> (\<forall>r. r \<noteq> local_rank A \<and>
               filter (improper_window M V)
                 (shard (A\<lparr>local_rank := r\<rparr>) (total_number_of_windows V)) \<noteq> []
             \<longrightarrow> n < length (filter (improper_window M V) [0..<total_number_of_windows V]))"
proof -
  let ?N = "total_number_of_windows V"
  let ?P = "improper_window M V"
  from assms(1) have nz: "world_size A \<noteq> 0" by simp
  from local_stats_ok [OF nz assms(2)] obtain st where st: "local_stats A M V = Inr st" ..
  from group_stats_ok [OF assms] obtain sts where sts: "group_stats A M V = Inr sts" by blast
  let ?n = "improper_measures st"
  have n: "?n = length (filter ?P (shard A ?N))"
    by (rule local_stats_improper [OF nz st])
  have le: "?n \<le> length (filter ?P [0..<?N])"
  proof -
    have "length (filter ?P (filter (\<lambda>i. int i mod world_size A = local_rank A) [0..<?N]))
          + length (filter ?P (filter (\<lambda>i. False) [0..<?N])) \<le> length (filter ?P [0..<?N])"
      by (rule two_filters_length) simp
    then show ?thesis using n by (simp add: shard_def)
  qed
  have lt: "\<forall>r. r \<noteq> local_rank A \<and> filter ?P (shard (A\<lparr>local_rank := r\<rparr>) ?N) \<noteq> []
              \<longrightarrow> ?n < length (filter ?P [0..<?N])"
  proof (intro allI impI)
    fix r assume r: "r \<noteq> local_rank A \<and> filter ?P (shard (A\<lparr>local_rank := r\<rparr>) ?N) \<noteq> []"
    then have pos: "0 < length (filter ?P (shard (A\<lparr>local_rank := r\<rparr>) ?N))"
      by simp
    have "length (filter ?P (filter (\<lambda>i. int i mod world_size A = local_rank A) [0..<?N]))
          + length (filter ?P (filter (\<lambda>i. int i mod world_size A = r) [0..<?N]))
          \<le> length (filter ?P [0..<?N])"
      using r by (intro two_filters_length) auto
    then have "length (filter ?P (shard A ?N))
          + length (filter ?P (shard (A\<lparr>local_rank := r\<rparr>) ?N))
          \<le> length (filter ?P [0..<?N])"
      by (simp add: shard_def)
    with pos n show "?n < length (filter ?P [0..<?N])"
      by linarith
  qed
  from compute_error_stats_value [OF st sts] n le lt show ?thesis
    by (cases "distributed A") auto
qed

theorem improper_measures_not_reduced_witness:
  "\<exists>c d a n. compute_error_stats (ex_args\<lparr>local_rank := 0\<rparr>) ex_models ex_loader = Inr (c, d, a, n)
     \<and> n = 0
     \<and> length (filter (improper_window ex_models ex_loader)
                 [0..<total_number_of_windows ex_loader]) = 1"
proof -
  let ?A = "ex_args\<lparr>local_rank := 0\<rparr>"
  have h1: "0 < world_size ?A" by (simp add: ex_args_def)
  have h2: "total_number_of_windows ex_loader \<le> grid_size (shape ex_loader)"
    by (simp add: ex_loader_def)
  have t: "total_number_of_windows ex_loader = 4" by (simp add: ex_loader_def)
  from improper_measures_not_reduced [OF h1 h2, of ex_models]
  obtain c d a n where r: "compute_error_stats ?A ex_models ex_loader = Inr (c, d, a, n)"
    and n: "n = length (filter (improper_window ex_models ex_loader)
                 (shard ?A (total_number_of_windows ex_loader)))"
    and lt: "\<forall>r. r \<noteq> local_rank ?A \<and>
               filter (improper_window ex_models ex_loader)
                 (shard (?A\<lparr>local_rank := r\<rparr>) (total_number_of_windows ex_loader)) \<noteq> []
             \<longrightarrow> n < length (filter (improper_window ex_models ex_loader)
                               [0..<total_number_of_windows ex_loader])"
    by blast
  have "1 \<noteq> local_rank ?A" by simp
  moreover have "filter (improper_window ex_models ex_loader)
          (shard (?A\<lparr>local_rank := 1\<rparr>) (total_number_of_windows ex_loader)) \<noteq> []"
    by (simp add: t ex_shards ex_improper_window)
  ultimately have "n < length (filter (improper_window ex_models ex_loader)
                               [0..<total_number_of_windows ex_loader])"
    using lt by blast
  then have "n = 0" by (simp add: ex_improper_windows)
  with r show ?thesis by (simp add: ex_improper_windows)
qed

section \<open>The averages of run_model\<close>

text \<open>
  C10: \<^verbatim>\<open>run_model\<close> divides the three error sums by \<^verbatim>\<open>measures\<close> without a guard. When
  the batch has at least one proper row (its label has pulses, or its label has zero
  pulses and the count of the counter rounds to zero), \<^verbatim>\<open>measures\<close> is positive after
  the loop, the report never fails with ZeroDivisionError, and each average is the sum
  divided by \<^verbatim>\<open>measures\<close>.
\<close>

theorem run_model_denominator_positive:
  assumes "length (get_batch V) = batch_size V" "i < batch_size V"
    and "f_less (Fin 0) (fst (labels (get_batch V ! i))) \<or>
         (f_eq (fst (labels (get_batch V ! i))) (Fin 0) \<and>
          f_eq (f_round (model_1 M (center (noisy_signals (get_batch V ! i))))) (Fin 0))"
  shows "\<exists>acc. run_model_sums M V = Inr acc \<and> 0 < measures acc
       \<and> run_model M V \<noteq> Inl ZeroDivisionError
       \<and> run_model M V =
          (case (item (duration_error acc), item (amplitude_error acc), item (count_error acc)) of
             (Inr d, Inr a, Inr c) \<Rightarrow>
               Inr \<lparr>duration_average = f_div d (Fin (real (measures acc))),
                    amplitude_average = f_div a (Fin (real (measures acc))),
                    count_average = f_div c (Fin (real (measures acc))),
                    improper_reported = improper_measures_run acc\<rparr>
           | (Inr d, Inr a, Inl e) \<Rightarrow> Inl e
           | (Inr d, Inl e, _) \<Rightarrow> Inl e
           | (Inl e, _, _) \<Rightarrow> Inl e)"
proof -
  let ?ws = "get_batch V"
  let ?ev = "evaluate_batch M ?ws"
  let ?acc = "batch_loop ?ws ?ev [0..<batch_size V] init_acc"
  have s: "run_model_sums M V = Inr ?acc"
    using assms(1) by (simp add: run_model_sums_def Let_def)
  from assms(1,2) have il: "i < length ?ws" by simp
  have "\<not> f_eq (fst (labels (?ws ! i))) (Fin 0) \<or> i \<in> set (zero_pulse_indices ?ev)"
    using assms(3) f_less_not_eq evaluate_batch_zero_pulse [OF il, of M] by blast
  moreover have "i \<in> set [0..<batch_size V]" using assms(2) by simp
  ultimately have m: "0 < measures ?acc" by (rule batch_loop_measures_proper [rotated])
  note v = run_model_value [OF s m]
  have "run_model M V \<noteq> Inl ZeroDivisionError"
    unfolding v by (auto split: sum.splits dest: item_error)
  with s m v show ?thesis by blast
qed

theorem run_model_denominator_positive_witness:
  "\<exists>acc. run_model_sums ex_models ex_loader = Inr acc \<and> measures acc = 1
       \<and> run_model ex_models ex_loader =
           Inr \<lparr>duration_average = Fin 25, amplitude_average = Fin 20,
                count_average = Fin 50, improper_reported = 1\<rparr>"
proof -
  have h1: "length (get_batch ex_loader) = batch_size ex_loader" by (simp add: ex_batch)
  have h2: "1 < batch_size ex_loader" by (simp add: ex_batch)
  have h3: "f_less (Fin 0) (fst (labels (get_batch ex_loader ! 1))) \<or>
         (f_eq (fst (labels (get_batch ex_loader ! 1))) (Fin 0) \<and>
          f_eq (f_round (model_1 ex_models (center (noisy_signals (get_batch ex_loader ! 1)))))
            (Fin 0))"
    by (simp add: ex_batch)
  from run_model_denominator_positive [OF h1 h2 h3]
  show ?thesis by (simp add: ex_run_model_sums)
qed

end
